theory Spec2Isabelle
  imports Main
begin

section \<open>Data model\<close>

text \<open>
  Modelled from the spec: the string constants of \<^verbatim>\<open>constants.States\<close> (module
  \<^verbatim>\<open>constants\<close> is not among the sources). The driver only compares them for equality;
  the seven names used by the driver are distinct values, listed in the order of the
  workflow.
\<close>

datatype States =
    initialising
  | defining_order
  | paging_to_fronts
  | inserting_fronts
  | paging_to_backs
  | inserting_backs
  | paging_to_review

text \<open>The position of a state in the total order of the workflow.\<close>

fun rank :: "States \<Rightarrow> nat" where
  "rank initialising = 0"
| "rank defining_order = 1"
| "rank paging_to_fronts = 2"
| "rank inserting_fronts = 3"
| "rank paging_to_backs = 4"
| "rank inserting_backs = 5"
| "rank paging_to_review = 6"

datatype Faces = Front | Back

text \<open>
  Modelled from the spec: \<^verbatim>\<open>CardImage\<close>, \<^verbatim>\<open>CardImageCollection\<close> and \<^verbatim>\<open>CardOrder\<close> of
  module \<^verbatim>\<open>order\<close> (not among the sources), with the attributes the driver reads.
  \<^verbatim>\<open>file_exists\<close> stands for the answer of \<^verbatim>\<open>image.file_exists()\<close> when the upload
  step asks. The field \<^verbatim>\<open>queue\<close> of a collection holds the descriptors the download
  workers deliver, in delivery order; \<^verbatim>\<open>queue.get()\<close> takes the first one and never
  returns when there is none.
\<close>

record CardImage =
  name :: string
  file_path :: string
  slots :: "nat list"
  downloaded :: bool
  file_exists :: bool

record CardImageCollection =
  cards :: "CardImage list"
  queue :: "CardImage list"

record Details =
  stock :: string
  quantity :: nat
  bracket :: nat
  foil :: bool

record CardOrder =
  details :: Details
  fronts :: CardImageCollection
  backs :: CardImageCollection

subsection \<open>Exceptions and outcomes\<close>

text \<open>The Selenium exceptions the driver names, and one for every other failure of a call.\<close>

datatype sl_exc =
    NoSuchElementException
  | NoSuchFrameException
  | TimeoutException
  | UnexpectedAlertPresentException
  | NoAlertPresentException
  | WebDriverException

datatype exn =
    InvalidStateException States States
  | Selenium sl_exc

datatype 'a outcome = Returned 'a | Raised exn

subsection \<open>The browser session\<close>

datatype elem = Elem nat

text \<open>
  The methods of \<^verbatim>\<open>self.driver\<close> that the driver calls, over a session state \<open>'s\<close> about
  which nothing is assumed. Every call returns a value or raises, and leaves the session
  in a new state; so do the two reads of an element that is already in hand
  (\<^verbatim>\<open>value_of_css_property\<close>, \<^verbatim>\<open>get_attribute\<close>), which are commands to the browser like the
  others: the page can move between one read and the next.
\<close>

record 's webdriver =
  get_url :: "string \<Rightarrow> 's \<Rightarrow> (sl_exc + unit) \<times> 's"
  find_element_by_id :: "string \<Rightarrow> 's \<Rightarrow> (sl_exc + elem) \<times> 's"
  find_element_by_xpath :: "string \<Rightarrow> 's \<Rightarrow> (sl_exc + elem) \<times> 's"
  find_elements_by_xpath :: "string \<Rightarrow> 's \<Rightarrow> (sl_exc + elem list) \<times> 's"
  select_by_visible_text :: "elem \<Rightarrow> string \<Rightarrow> 's \<Rightarrow> (sl_exc + unit) \<times> 's"
  select_by_value :: "elem \<Rightarrow> string \<Rightarrow> 's \<Rightarrow> (sl_exc + unit) \<times> 's"
  execute_script :: "string \<Rightarrow> 's \<Rightarrow> (sl_exc + unit) \<times> 's"
  switch_to_frame_call :: "string \<Rightarrow> 's \<Rightarrow> (sl_exc + unit) \<times> 's"
  switch_to_default_content :: "'s \<Rightarrow> (sl_exc + unit) \<times> 's"
  switch_to_alert :: "'s \<Rightarrow> (sl_exc + unit) \<times> 's"
  alert_accept :: "'s \<Rightarrow> (sl_exc + unit) \<times> 's"
  until_invisible :: "elem \<Rightarrow> 's \<Rightarrow> (sl_exc + unit) \<times> 's"
  click :: "elem \<Rightarrow> 's \<Rightarrow> (sl_exc + unit) \<times> 's"
  send_keys :: "elem \<Rightarrow> string \<Rightarrow> 's \<Rightarrow> (sl_exc + unit) \<times> 's"
  value_of_css_property :: "elem \<Rightarrow> string \<Rightarrow> 's \<Rightarrow> (sl_exc + string) \<times> 's"
  get_attribute :: "elem \<Rightarrow> string \<Rightarrow> 's \<Rightarrow> (sl_exc + string option) \<times> 's"
  sleep :: "nat \<Rightarrow> 's \<Rightarrow> 's"

text \<open>
  Everything the driver does that can be observed from outside, in the order it does it:
  the calls on the session, the assignments of the workflow state, the pops from a
  delivery queue and the advances of the upload counter.
\<close>

datatype event =
    Get string
  | FindElementById string
  | FindElementByXpath string
  | FindElementsByXpath string
  | SelectByVisibleText elem string
  | SelectByValue elem string
  | ExecuteScript string
  | SwitchToFrame string
  | SwitchToDefaultContent
  | SwitchToAlert
  | AlertAccept
  | UntilInvisible elem
  | Click elem
  | SendKeys elem string
  | ValueOfCssProperty elem string
  | GetAttribute elem string
  | Sleep nat
  | SetState States string
  | QueueGet Faces
  | UploadBarUpdate

text \<open>
  The attributes of \<^verbatim>\<open>AutofillDriver\<close>. The methods of \<^verbatim>\<open>self.driver\<close> are the argument
  \<open>w\<close> of every operation below and its browser is the field \<open>session\<close>; \<open>trace\<close> records
  the events. The status bar shows the state and the action (\<^verbatim>\<open>N/A\<close> for no action).
\<close>

record 's AutofillDriver =
  session :: 's
  order :: CardOrder
  state :: States
  action :: string
  status_bar :: "States \<times> string"
  upload_bar :: nat
  trace :: "event list"

subsection \<open>Calls on the session\<close>

definition call ::
  "event \<Rightarrow> ('s \<Rightarrow> (sl_exc + 'a) \<times> 's) \<Rightarrow> 's AutofillDriver \<Rightarrow> 'a outcome \<times> 's AutofillDriver" where
  "call ev f d =
     (case f (session d) of
        (Inl e, s') \<Rightarrow> (Raised (Selenium e), d\<lparr>session := s', trace := trace d @ [ev]\<rparr>)
      | (Inr v, s') \<Rightarrow> (Returned v, d\<lparr>session := s', trace := trace d @ [ev]\<rparr>))"

definition time_sleep :: "'s webdriver \<Rightarrow> nat \<Rightarrow> 's AutofillDriver \<Rightarrow> 's AutofillDriver" where
  "time_sleep w n d = d\<lparr>session := sleep w n (session d), trace := trace d @ [Sleep n]\<rparr>"

text \<open>Sequencing: an exception ends the run of the operation at the state reached.\<close>

definition and_then ::
  "'a outcome \<times> 'd \<Rightarrow> ('a \<Rightarrow> 'd \<Rightarrow> 'b outcome \<times> 'd) \<Rightarrow> 'b outcome \<times> 'd" where
  "and_then r f = (case r of (Raised e, d) \<Rightarrow> (Raised e, d) | (Returned x, d) \<Rightarrow> f x d)"

text \<open>The same for operations that may never return (\<open>None\<close>).\<close>

definition and_next ::
  "('a outcome \<times> 'd) option \<Rightarrow> ('a \<Rightarrow> 'd \<Rightarrow> ('b outcome \<times> 'd) option)
     \<Rightarrow> ('b outcome \<times> 'd) option" where
  "and_next r f =
     (case r of
        None \<Rightarrow> None
      | Some (Raised e, d) \<Rightarrow> Some (Raised e, d)
      | Some (Returned x, d) \<Rightarrow> f x d)"

section \<open>Helpers of the driver\<close>

definition set_state :: "States \<Rightarrow> string \<Rightarrow> 's AutofillDriver \<Rightarrow> 's AutofillDriver" where
  "set_state st act d =
     d\<lparr>state := st, action := act,
       status_bar := (st, if act = [] then ''N/A'' else act),
       trace := trace d @ [SetState st act]\<rparr>"

definition assert_state :: "States \<Rightarrow> 's AutofillDriver \<Rightarrow> unit outcome \<times> 's AutofillDriver" where
  "assert_state expected_state d =
     (if state d \<noteq> expected_state
      then (Raised (InvalidStateException expected_state (state d)), d)
      else (Returned (), d))"

text \<open>
  A \<^verbatim>\<open>try\<close> block whose handler is \<^verbatim>\<open>pass\<close> for the listed exceptions.
\<close>

definition except_pass ::
  "sl_exc list \<Rightarrow> unit outcome \<times> 'd \<Rightarrow> unit outcome \<times> 'd" where
  "except_pass excs r =
     (case r of
        (Raised e, d) \<Rightarrow>
          if e \<in> Selenium ` set excs then (Returned (), d) else (Raised e, d)
      | (Returned x, d) \<Rightarrow> (Returned x, d))"

text \<open>
  The handler of lines 289-293: \<^verbatim>\<open>alert = self.driver.switch_to.alert\<close>,
  \<^verbatim>\<open>alert.accept()\<close>, with \<^verbatim>\<open>NoAlertPresentException\<close> passed over.
\<close>

definition accept_alert ::
  "'s webdriver \<Rightarrow> 's AutofillDriver \<Rightarrow> unit outcome \<times> 's AutofillDriver" where
  "accept_alert w d =
     except_pass [NoAlertPresentException]
       (and_then (call SwitchToAlert (switch_to_alert w) d)
          (\<lambda>_ d. call AlertAccept (alert_accept w) d))"

text \<open>
  Modelled from the spec: the decorator \<^verbatim>\<open>alert_handler\<close> of module \<^verbatim>\<open>utils\<close> (not among
  the sources). An unsolicited dialog raised while the decorated method runs is accepted
  and does not propagate; the method then returns nothing. The handler is the one the
  upload step has inline. Every decorated method returns \<^verbatim>\<open>None\<close>.
\<close>

definition alert_handler ::
  "'s webdriver \<Rightarrow> ('s AutofillDriver \<Rightarrow> (unit outcome \<times> 's AutofillDriver) option)
     \<Rightarrow> 's AutofillDriver \<Rightarrow> (unit outcome \<times> 's AutofillDriver) option" where
  "alert_handler w func d =
     (case func d of
        None \<Rightarrow> None
      | Some (Raised e, d1) \<Rightarrow>
          if e = Selenium UnexpectedAlertPresentException then Some (accept_alert w d1)
          else Some (Raised e, d1)
      | Some (Returned x, d1) \<Rightarrow> Some (Returned x, d1))"

definition switch_to_frame ::
  "'s webdriver \<Rightarrow> string \<Rightarrow> 's AutofillDriver \<Rightarrow> (unit outcome \<times> 's AutofillDriver) option" where
  "switch_to_frame w frame =
     alert_handler w (\<lambda>d. Some
       (except_pass [NoSuchFrameException, NoSuchElementException]
          (call (SwitchToFrame frame) (switch_to_frame_call w frame) d)))"

text \<open>
  The loop of \<^verbatim>\<open>wait\<close>: \<^verbatim>\<open>WebDriverWait(self.driver, 100).until(invisibility_of_element(wait_elem))\<close>,
  tried again after every \<^verbatim>\<open>TimeoutException\<close>.
\<close>

partial_function (option) wait_loop ::
  "'s webdriver \<Rightarrow> elem \<Rightarrow> 's AutofillDriver \<Rightarrow> (unit outcome \<times> 's AutofillDriver) option" where
  "wait_loop w wait_elem d =
     (case call (UntilInvisible wait_elem) (until_invisible w wait_elem) d of
        (Raised e, d1) \<Rightarrow>
          if e = Selenium TimeoutException then wait_loop w wait_elem d1
          else Some (Raised e, d1)
      | (Returned _, d1) \<Rightarrow> Some (Returned (), d1))"

declare wait_loop.simps [code]

text \<open>The body of \<^verbatim>\<open>wait\<close>; the outer handler returns on \<^verbatim>\<open>NoSuchElementException\<close>.\<close>

definition wait_body ::
  "'s webdriver \<Rightarrow> 's AutofillDriver \<Rightarrow> (unit outcome \<times> 's AutofillDriver) option" where
  "wait_body w d =
     map_option (except_pass [NoSuchElementException])
       (and_next (Some (call (FindElementById ''sysdiv_wait'') (find_element_by_id w ''sysdiv_wait'') d))
          (\<lambda>wait_elem d. wait_loop w wait_elem d))"

definition wait ::
  "'s webdriver \<Rightarrow> 's AutofillDriver \<Rightarrow> (unit outcome \<times> 's AutofillDriver) option" where
  "wait w = alert_handler w (wait_body w)"

definition execute_javascript ::
  "'s webdriver \<Rightarrow> string \<Rightarrow> 's AutofillDriver \<Rightarrow> (unit outcome \<times> 's AutofillDriver) option" where
  "execute_javascript w js =
     alert_handler w (\<lambda>d. Some
       (call (ExecuteScript (''javascript:'' @ js)) (execute_script w (''javascript:'' @ js)) d))"

definition next_step ::
  "'s webdriver \<Rightarrow> 's AutofillDriver \<Rightarrow> (unit outcome \<times> 's AutofillDriver) option" where
  "next_step w d =
     and_next (wait w d) (\<lambda>_ d. execute_javascript w ''oDesign.setNextStep();'' d)"

definition different_images ::
  "'s webdriver \<Rightarrow> 's AutofillDriver \<Rightarrow> (unit outcome \<times> 's AutofillDriver) option" where
  "different_images w d = execute_javascript w ''setMode('ImageText', 0);'' d"

definition same_images ::
  "'s webdriver \<Rightarrow> 's AutofillDriver \<Rightarrow> (unit outcome \<times> 's AutofillDriver) option" where
  "same_images w d = execute_javascript w ''setMode('ImageText', 1);'' d"

text \<open>Python's \<^verbatim>\<open>str\<close> of a natural number: its decimal digits.\<close>

fun str_fuel :: "nat \<Rightarrow> nat \<Rightarrow> string" where
  "str_fuel 0 n = []"
| "str_fuel (Suc k) n =
     (if n < 10 then [''0123456789'' ! n]
      else str_fuel k (n div 10) @ [''0123456789'' ! (n mod 10)])"

definition str :: "nat \<Rightarrow> string" where
  "str n = str_fuel (Suc n) n"

definition page_to_fronts ::
  "'s webdriver \<Rightarrow> 's AutofillDriver \<Rightarrow> (unit outcome \<times> 's AutofillDriver) option" where
  "page_to_fronts w d =
     and_next (Some (assert_state paging_to_fronts d)) (\<lambda>_ d.
     and_next (execute_javascript w
       ''doPersonalize('https://www.makeplayingcards.com/products/pro_item_process_flow.aspx');'' d) (\<lambda>_ d.
     and_next (switch_to_frame w ''sysifm_loginFrame'' d) (\<lambda>_ d.
     and_next (execute_javascript w
       (''document.getElementById('txt_card_number').value='' @ str (quantity (details (order d))) @ '';'') d) (\<lambda>_ d.
     and_next (different_images w d) (\<lambda>_ d.
     and_next (Some (call SwitchToDefaultContent (switch_to_default_content w) d)) (\<lambda>_ d.
     Some (Returned (), set_state inserting_fronts [] d)))))))"

definition page_to_backs ::
  "'s webdriver \<Rightarrow> 's AutofillDriver \<Rightarrow> (unit outcome \<times> 's AutofillDriver) option" where
  "page_to_backs w d =
     and_next (Some (assert_state paging_to_backs d)) (\<lambda>_ d.
     and_next (next_step w d) (\<lambda>_ d.
     and_next (wait w d) (\<lambda>_ d.
     and_next (Some (except_pass [NoSuchElementException]
       (and_then (call (FindElementById ''closeBtn'') (find_element_by_id w ''closeBtn'') d)
          (\<lambda>close_btn d. call (Click close_btn) (click w close_btn) d)))) (\<lambda>_ d.
     and_next (next_step w d) (\<lambda>_ d.
     and_next (switch_to_frame w ''sysifm_loginFrame'' d) (\<lambda>_ d.
     and_next (if length (cards (backs (order d))) = 1 then same_images w d
               else different_images w d) (\<lambda>_ d.
     and_next (Some (call SwitchToDefaultContent (switch_to_default_content w) d)) (\<lambda>_ d.
     Some (Returned (), set_state inserting_backs [] d)))))))))"

section \<open>Uploading\<close>

text \<open>
  The first loop of \<^verbatim>\<open>upload_image\<close>: while the progress container is displayed, sleep
  three seconds.
\<close>

partial_function (option) busy_loop ::
  "'s webdriver \<Rightarrow> elem \<Rightarrow> 's AutofillDriver \<Rightarrow> (unit outcome \<times> 's AutofillDriver) option" where
  "busy_loop w progress_container d =
     (case call (ValueOfCssProperty progress_container ''display'')
             (value_of_css_property w progress_container ''display'') d of
        (Raised e, d1) \<Rightarrow> Some (Raised e, d1)
      | (Returned v, d1) \<Rightarrow>
          if v \<noteq> ''none'' then busy_loop w progress_container (time_sleep w 3 d1)
          else Some (Returned (), d1))"

declare busy_loop.simps [code]

text \<open>
  The second loop: while the progress container is not displayed, send the path of the
  file to the upload field, sleep a second and find the container again.
\<close>

partial_function (option) submit_loop ::
  "'s webdriver \<Rightarrow> CardImage \<Rightarrow> elem \<Rightarrow> 's AutofillDriver
     \<Rightarrow> (unit outcome \<times> 's AutofillDriver) option" where
  \<open>submit_loop w img progress_container d =
     (case call (ValueOfCssProperty progress_container ''display'')
             (value_of_css_property w progress_container ''display'') d of
        (Raised e, d1) \<Rightarrow> Some (Raised e, d1)
      | (Returned v, d1) \<Rightarrow>
          if v = ''none'' then
            (case and_then (call (FindElementByXpath ''//*[@id="uploadId"]'')
                              (find_element_by_xpath w ''//*[@id="uploadId"]'') d1)
                    (\<lambda>upload_id d. call (SendKeys upload_id (file_path img))
                                      (send_keys w upload_id (file_path img)) d) of
               (Raised e, d2) \<Rightarrow> Some (Raised e, d2)
             | (Returned _, d2) \<Rightarrow>
                 (case call (FindElementById ''divFileProgressContainer'')
                         (find_element_by_id w ''divFileProgressContainer'') (time_sleep w 1 d2) of
                    (Raised e, d3) \<Rightarrow> Some (Raised e, d3)
                  | (Returned progress_container', d3) \<Rightarrow>
                      submit_loop w img progress_container' d3))
          else Some (Returned (), d1))\<close>

declare submit_loop.simps [code]

text \<open>
  The body of the \<^verbatim>\<open>try\<close> in the third loop: find the uploaded elements; when there are
  more than before, the result is the \<^verbatim>\<open>pid\<close> attribute of the last one; otherwise
  sleep two seconds. \<open>Inr pid\<close> is the \<^verbatim>\<open>return\<close>, \<open>Inl ()\<close> falls through to the next
  round of the loop.
\<close>

definition poll_once ::
  "'s webdriver \<Rightarrow> nat \<Rightarrow> 's AutofillDriver
     \<Rightarrow> (unit + string option) outcome \<times> 's AutofillDriver" where
  "poll_once w num_elems d =
     and_then (call (FindElementsByXpath ''//*[contains(@id, 'upload_')]'')
                 (find_elements_by_xpath w ''//*[contains(@id, 'upload_')]'') d) (\<lambda>elem d.
       if length elem > num_elems then
         and_then (call (GetAttribute (last elem) ''pid'') (get_attribute w (last elem) ''pid'') d)
           (\<lambda>pid d. (Returned (Inr pid), d))
       else (Returned (Inl ()), time_sleep w 2 d))"

text \<open>
  The third loop, \<^verbatim>\<open>while True\<close>: an \<^verbatim>\<open>UnexpectedAlertPresentException\<close> of the body is
  handled by accepting the alert, and the loop goes on.
\<close>

partial_function (option) poll_loop ::
  "'s webdriver \<Rightarrow> nat \<Rightarrow> 's AutofillDriver
     \<Rightarrow> (string option outcome \<times> 's AutofillDriver) option" where
  "poll_loop w num_elems d =
     (case poll_once w num_elems d of
        (Raised e, d1) \<Rightarrow>
          if e = Selenium UnexpectedAlertPresentException then
            (case accept_alert w d1 of
               (Raised e', d2) \<Rightarrow> Some (Raised e', d2)
             | (Returned _, d2) \<Rightarrow> poll_loop w num_elems d2)
          else Some (Raised e, d1)
      | (Returned (Inr pid), d1) \<Rightarrow> Some (Returned pid, d1)
      | (Returned (Inl _), d1) \<Rightarrow> poll_loop w num_elems d1)"

declare poll_loop.simps [code]

text \<open>
  \<^verbatim>\<open>upload_image\<close>: the result is the \<^verbatim>\<open>pid\<close> of the image, \<open>None\<close> when the method
  reaches its end without a \<^verbatim>\<open>return\<close> (the file does not exist) or when the element
  has no such attribute.
\<close>

definition upload_image ::
  "'s webdriver \<Rightarrow> CardImage \<Rightarrow> 's AutofillDriver
     \<Rightarrow> (string option outcome \<times> 's AutofillDriver) option" where
  \<open>upload_image w img d =
     (if file_exists img then
        and_next (Some (Returned (), set_state (state d) (''Uploading "'' @ name img @ ''"'') d)) (\<lambda>_ d.
        and_next (Some (call (FindElementsByXpath ''//*[contains(@id, 'upload_')]'')
                     (find_elements_by_xpath w ''//*[contains(@id, 'upload_')]'') d)) (\<lambda>elems d.
        and_next (Some (call (FindElementById ''divFileProgressContainer'')
                     (find_element_by_id w ''divFileProgressContainer'') d)) (\<lambda>progress_container d.
        and_next (busy_loop w progress_container d) (\<lambda>_ d.
        and_next (submit_loop w img progress_container d) (\<lambda>_ d.
        poll_loop w (length elems) d)))))
      else Some (Returned None, set_state (state d) [] d))\<close>

text \<open>
  The loop of \<^verbatim>\<open>insert_image\<close> over \<^verbatim>\<open>image.slots\<close>: the command placing the upload
  in the slot, then \<^verbatim>\<open>self.wait()\<close>.
\<close>

fun insert_slots ::
  "'s webdriver \<Rightarrow> string \<Rightarrow> nat list \<Rightarrow> 's AutofillDriver
     \<Rightarrow> (unit outcome \<times> 's AutofillDriver) option" where
  \<open>insert_slots w pid [] d = Some (Returned (), d)\<close>
| \<open>insert_slots w pid (slot # rest) d =
     and_next (execute_javascript w
       (''l.applyDragPhoto(l.getElement3("dnImg", '' @ str slot @ ''), 0, "'' @ pid @ ''")'') d) (\<lambda>_ d.
     and_next (wait w d) (\<lambda>_ d.
     insert_slots w pid rest d))\<close>

text \<open>
  \<^verbatim>\<open>insert_image\<close>; \<^verbatim>\<open>if pid\<close> holds for a string that is not empty, and fails for
  \<^verbatim>\<open>None\<close> and for the empty string.
\<close>

definition truthy :: "string option \<Rightarrow> bool" where
  "truthy pid = (case pid of None \<Rightarrow> False | Some p \<Rightarrow> p \<noteq> [])"

definition insert_image ::
  "'s webdriver \<Rightarrow> string option \<Rightarrow> CardImage \<Rightarrow> 's AutofillDriver
     \<Rightarrow> (unit outcome \<times> 's AutofillDriver) option" where
  \<open>insert_image w pid img d =
     (if truthy pid then
        and_next (Some (Returned (), set_state (state d) (''Inserting "'' @ name img @ ''"'') d)) (\<lambda>_ d.
        and_next (execute_javascript w ''l = PageLayout.prototype'' d) (\<lambda>_ d.
        and_next (insert_slots w (case pid of None \<Rightarrow> ''None'' | Some p \<Rightarrow> p) (slots img) d) (\<lambda>_ d.
        Some (Returned (), set_state (state d) [] d))))
      else Some (Returned (), d))\<close>

definition upload_and_insert_image ::
  "'s webdriver \<Rightarrow> CardImage \<Rightarrow> 's AutofillDriver \<Rightarrow> (unit outcome \<times> 's AutofillDriver) option" where
  "upload_and_insert_image w img d =
     and_next (upload_image w img d) (\<lambda>pid d. insert_image w pid img d)"

text \<open>
  The collection of a face in the order of the driver, and the order after a pop from
  its queue.
\<close>

fun images_of :: "Faces \<Rightarrow> CardOrder \<Rightarrow> CardImageCollection" where
  "images_of Front ord = fronts ord"
| "images_of Back ord = backs ord"

fun with_queue :: "Faces \<Rightarrow> CardImage list \<Rightarrow> CardOrder \<Rightarrow> CardOrder" where
  "with_queue Front q ord = ord\<lparr>fronts := (fronts ord)\<lparr>queue := q\<rparr>\<rparr>"
| "with_queue Back q ord = ord\<lparr>backs := (backs ord)\<lparr>queue := q\<rparr>\<rparr>"

text \<open>
  \<^verbatim>\<open>images.queue.get()\<close>: the first delivered descriptor; on a queue to which nothing
  more is delivered the call never returns.
\<close>

definition queue_get ::
  "Faces \<Rightarrow> 's AutofillDriver \<Rightarrow> (CardImage outcome \<times> 's AutofillDriver) option" where
  "queue_get face d =
     (case queue (images_of face (order d)) of
        [] \<Rightarrow> None
      | img # rest \<Rightarrow>
          Some (Returned img,
                d\<lparr>order := with_queue face rest (order d), trace := trace d @ [QueueGet face]\<rparr>))"

definition upload_bar_advance :: "'s AutofillDriver \<Rightarrow> 's AutofillDriver" where
  "upload_bar_advance d = d\<lparr>upload_bar := upload_bar d + 1, trace := trace d @ [UploadBarUpdate]\<rparr>"

text \<open>One round of the loop of \<^verbatim>\<open>upload_and_insert_images\<close>.\<close>

definition upload_and_insert_next ::
  "'s webdriver \<Rightarrow> Faces \<Rightarrow> 's AutofillDriver \<Rightarrow> (unit outcome \<times> 's AutofillDriver) option" where
  "upload_and_insert_next w face d =
     and_next (queue_get face d) (\<lambda>img d.
     and_next (if downloaded img then upload_and_insert_image w img d
               else Some (Returned (), d)) (\<lambda>_ d.
     Some (Returned (), upload_bar_advance d)))"

text \<open>\<^verbatim>\<open>for _ in range(n)\<close>.\<close>

fun for_range ::
  "nat \<Rightarrow> ('d \<Rightarrow> (unit outcome \<times> 'd) option) \<Rightarrow> 'd \<Rightarrow> (unit outcome \<times> 'd) option" where
  "for_range 0 body d = Some (Returned (), d)"
| "for_range (Suc n) body d = and_next (body d) (\<lambda>_ d. for_range n body d)"

text \<open>
  \<^verbatim>\<open>upload_and_insert_images\<close>; the collection \<^verbatim>\<open>images\<close> is the one of the given face.
\<close>

definition upload_and_insert_images ::
  "'s webdriver \<Rightarrow> Faces \<Rightarrow> 's AutofillDriver \<Rightarrow> (unit outcome \<times> 's AutofillDriver) option" where
  "upload_and_insert_images w face d =
     for_range (length (cards (images_of face (order d)))) (upload_and_insert_next w face) d"

section \<open>Public operations\<close>

text \<open>
  \<^verbatim>\<open>__attrs_post_init__\<close>: the bars are set up (the status bar shows the state, the upload
  counter starts at nought), the starting page is loaded and the state becomes
  \<^verbatim>\<open>defining_order\<close>. The attribute \<^verbatim>\<open>state\<close> is \<^verbatim>\<open>initialising\<close> before.
\<close>

definition configure_bars :: "'s AutofillDriver \<Rightarrow> 's AutofillDriver" where
  "configure_bars d = d\<lparr>status_bar := (state d, ''N/A''), upload_bar := 0\<rparr>"

definition attrs_post_init ::
  "'s webdriver \<Rightarrow> 's AutofillDriver \<Rightarrow> unit outcome \<times> 's AutofillDriver" where
  "attrs_post_init w d =
     and_then (call (Get ''https://www.makeplayingcards.com/design/custom-blank-card.html'')
                 (get_url w ''https://www.makeplayingcards.com/design/custom-blank-card.html'')
                 (configure_bars d)) (\<lambda>_ d.
     (Returned (), set_state defining_order [] d))"

definition define_order ::
  "'s webdriver \<Rightarrow> 's AutofillDriver \<Rightarrow> unit outcome \<times> 's AutofillDriver" where
  "define_order w d =
     and_then (assert_state defining_order d) (\<lambda>_ d.
     and_then (call (FindElementById ''dro_paper_type'') (find_element_by_id w ''dro_paper_type'') d)
       (\<lambda>stock_dropdown d.
     and_then (call (SelectByVisibleText stock_dropdown (stock (details (order d))))
                 (select_by_visible_text w stock_dropdown (stock (details (order d)))) d) (\<lambda>_ d.
     and_then (call (FindElementById ''dro_choosesize'') (find_element_by_id w ''dro_choosesize'') d)
       (\<lambda>qty_dropdown d.
     and_then (call (SelectByValue qty_dropdown (str (bracket (details (order d)))))
                 (select_by_value w qty_dropdown (str (bracket (details (order d))))) d) (\<lambda>_ d.
     and_then (if foil (details (order d)) then
                 and_then (call (FindElementById ''dro_product_effect'')
                             (find_element_by_id w ''dro_product_effect'') d) (\<lambda>foil_dropdown d.
                 call (SelectByValue foil_dropdown ''EF_055'')
                   (select_by_value w foil_dropdown ''EF_055'') d)
               else (Returned (), d)) (\<lambda>_ d.
     (Returned (), set_state paging_to_fronts [] d)))))))"

definition insert_fronts ::
  "'s webdriver \<Rightarrow> 's AutofillDriver \<Rightarrow> (unit outcome \<times> 's AutofillDriver) option" where
  "insert_fronts w d =
     and_next (page_to_fronts w d) (\<lambda>_ d.
     and_next (Some (assert_state inserting_fronts d)) (\<lambda>_ d.
     and_next (upload_and_insert_images w Front d) (\<lambda>_ d.
     Some (Returned (), set_state paging_to_backs [] d))))"

definition insert_backs ::
  "'s webdriver \<Rightarrow> 's AutofillDriver \<Rightarrow> (unit outcome \<times> 's AutofillDriver) option" where
  "insert_backs w d =
     and_next (page_to_backs w d) (\<lambda>_ d.
     and_next (Some (assert_state inserting_backs d)) (\<lambda>_ d.
     and_next (upload_and_insert_images w Back d) (\<lambda>_ d.
     Some (Returned (), set_state paging_to_review [] d))))"

text \<open>
  The three operations in the order \<^verbatim>\<open>execute\<close> runs them, once the downloads have been
  handed to the pool.
\<close>

definition execute ::
  "'s webdriver \<Rightarrow> 's AutofillDriver \<Rightarrow> (unit outcome \<times> 's AutofillDriver) option" where
  "execute w d =
     and_next (Some (define_order w d)) (\<lambda>_ d.
     and_next (insert_fronts w d) (\<lambda>_ d.
     insert_backs w d))"

section \<open>Describing runs\<close>

text \<open>
  \<open>adds d new d'\<close>: from \<open>d\<close> to \<open>d'\<close> the events \<open>new\<close> were added to the trace, and the
  workflow state, the order with its queues and the upload counter are the same.
\<close>

definition adds :: "'s AutofillDriver \<Rightarrow> event list \<Rightarrow> 's AutofillDriver \<Rightarrow> bool" where
  "adds d new d' \<longleftrightarrow>
     trace d' = trace d @ new \<and> state d' = state d \<and> order d' = order d \<and>
     upload_bar d' = upload_bar d"

fun is_alert_event :: "event \<Rightarrow> bool" where
  "is_alert_event SwitchToAlert = True"
| "is_alert_event AlertAccept = True"
| "is_alert_event _ = False"

fun is_until_event :: "event \<Rightarrow> bool" where
  "is_until_event (UntilInvisible e) = True"
| "is_until_event _ = False"

fun is_wait_event :: "event \<Rightarrow> bool" where
  "is_wait_event (UntilInvisible e) = True"
| "is_wait_event SwitchToAlert = True"
| "is_wait_event AlertAccept = True"
| "is_wait_event _ = False"


fun is_busy_event :: "event \<Rightarrow> bool" where
  "is_busy_event (ValueOfCssProperty e p) = True"
| "is_busy_event (Sleep n) = True"
| "is_busy_event _ = False"

fun is_submit_event :: "event \<Rightarrow> bool" where
  "is_submit_event (ValueOfCssProperty e p) = True"
| "is_submit_event (FindElementByXpath x) = True"
| "is_submit_event (SendKeys e p) = True"
| "is_submit_event (Sleep n) = True"
| "is_submit_event (FindElementById i) = True"
| "is_submit_event _ = False"

fun is_poll_event :: "event \<Rightarrow> bool" where
  "is_poll_event (FindElementsByXpath x) = True"
| "is_poll_event (GetAttribute e a) = True"
| "is_poll_event (Sleep n) = True"
| "is_poll_event SwitchToAlert = True"
| "is_poll_event AlertAccept = True"
| "is_poll_event _ = False"






fun is_mode_command :: "event \<Rightarrow> bool" where
  "is_mode_command (ExecuteScript js) =
     (js = ''javascript:setMode('ImageText', 0);'' \<or> js = ''javascript:setMode('ImageText', 1);'')"
| "is_mode_command _ = False"

text \<open>
  The events of one upload and insert in workflow state \<open>st\<close>: no pop, no advance of the
  upload counter, no mode command, and state assignments only of \<open>st\<close> itself.
\<close>

fun inner_event :: "States \<Rightarrow> event \<Rightarrow> bool" where
  "inner_event st (SetState s a) = (s = st)"
| "inner_event st (ExecuteScript js) = (\<not> is_mode_command (ExecuteScript js))"
| "inner_event st (QueueGet f) = False"
| "inner_event st UploadBarUpdate = False"
| "inner_event st _ = True"

fun is_pop :: "event \<Rightarrow> bool" where
  "is_pop (QueueGet f) = True"
| "is_pop _ = False"

fun is_advance :: "event \<Rightarrow> bool" where
  "is_advance UploadBarUpdate = True"
| "is_advance _ = False"

fun is_pop_or_advance :: "event \<Rightarrow> bool" where
  "is_pop_or_advance (QueueGet f) = True"
| "is_pop_or_advance UploadBarUpdate = True"
| "is_pop_or_advance _ = False"

text \<open>The events of the loop of \<^verbatim>\<open>upload_and_insert_images\<close> in workflow state \<open>st\<close>.\<close>

fun sequencer_event :: "States \<Rightarrow> event \<Rightarrow> bool" where
  "sequencer_event st (SetState s a) = (s = st)"
| "sequencer_event st (ExecuteScript js) = (\<not> is_mode_command (ExecuteScript js))"
| "sequencer_event st _ = True"

fun is_send_keys :: "event \<Rightarrow> bool" where
  "is_send_keys (SendKeys e p) = True"
| "is_send_keys _ = False"

text \<open>
  The events of a paging step other than its mode command: calls on the session that
  send no file and set no mode.
\<close>

fun paging_event :: "event \<Rightarrow> bool" where
  "paging_event (SetState s a) = False"
| "paging_event (QueueGet f) = False"
| "paging_event UploadBarUpdate = False"
| "paging_event (SendKeys e p) = False"
| "paging_event (ExecuteScript js) = (\<not> is_mode_command (ExecuteScript js))"
| "paging_event _ = True"

fun is_session_call :: "event \<Rightarrow> bool" where
  "is_session_call (SetState s a) = False"
| "is_session_call (QueueGet f) = False"
| "is_session_call UploadBarUpdate = False"
| "is_session_call _ = True"

text \<open>The workflow states assigned along a trace, in order.\<close>

fun assigned_states :: "event list \<Rightarrow> States list" where
  "assigned_states [] = []"
| "assigned_states (SetState s a # es) = s # assigned_states es"
| "assigned_states (e # es) = assigned_states es"

text \<open>
  \<open>moves_forward s new s'\<close>: starting in state \<open>s\<close>, the states assigned along \<open>new\<close> never
  go back in the order of the workflow, and \<open>s'\<close> is the state after the last assignment.
\<close>

definition moves_forward :: "States \<Rightarrow> event list \<Rightarrow> States \<Rightarrow> bool" where
  "moves_forward s new s' \<longleftrightarrow>
     sorted (map rank (s # assigned_states new)) \<and> s' = last (s # assigned_states new)"

section \<open>A sample session\<close>

text \<open>
  A browser for running the driver on concrete inputs. A script makes the loading
  indicator time out once; sending a file shows the progress container for three sleeps,
  opens a dialog, and the upload is listed after the second sleep.
\<close>

record browser =
  busy :: nat
  uploaded :: nat
  loading :: nat
  alert_open :: bool

definition sample_webdriver :: "browser webdriver" where
  "sample_webdriver =
     \<lparr>get_url = (\<lambda>url s. (Inr (), s)),
      find_element_by_id = (\<lambda>i s.
        if i = ''closeBtn'' then (Inl NoSuchElementException, s) else (Inr (Elem 0), s)),
      find_element_by_xpath = (\<lambda>x s. (Inr (Elem 1), s)),
      find_elements_by_xpath = (\<lambda>x s.
        if alert_open s then (Inl UnexpectedAlertPresentException, s)
        else (Inr (map Elem [2..<2 + uploaded s]), s)),
      select_by_visible_text = (\<lambda>e t s. (Inr (), s)),
      select_by_value = (\<lambda>e v s. (Inr (), s)),
      execute_script = (\<lambda>js s. (Inr (), s\<lparr>loading := 1\<rparr>)),
      switch_to_frame_call = (\<lambda>f s. (Inr (), s)),
      switch_to_default_content = (\<lambda>s. (Inr (), s)),
      switch_to_alert = (\<lambda>s.
        if alert_open s then (Inr (), s) else (Inl NoAlertPresentException, s)),
      alert_accept = (\<lambda>s. (Inr (), s\<lparr>alert_open := False\<rparr>)),
      until_invisible = (\<lambda>e s.
        if loading s = 0 then (Inr (), s)
        else (Inl TimeoutException, s\<lparr>loading := loading s - 1\<rparr>)),
      click = (\<lambda>e s. (Inr (), s)),
      send_keys = (\<lambda>e p s. (Inr (), s\<lparr>busy := 3, alert_open := True\<rparr>)),
      value_of_css_property = (\<lambda>e p s. (Inr (if busy s = 0 then ''none'' else ''block''), s)),
      get_attribute = (\<lambda>e a s. case e of Elem i \<Rightarrow> (Inr (Some (''pid'' @ str i)), s)),
      sleep = (\<lambda>n s.
        if busy s = 0 then s
        else if busy s = 2 then s\<lparr>busy := 1, uploaded := uploaded s + 1\<rparr>
        else s\<lparr>busy := busy s - 1\<rparr>)\<rparr>"


definition sample_card :: "string \<Rightarrow> nat list \<Rightarrow> bool \<Rightarrow> bool \<Rightarrow> CardImage" where
  "sample_card n sl dl fe =
     \<lparr>name = n, file_path = ''cards/'' @ n, slots = sl, downloaded = dl, file_exists = fe\<rparr>"

text \<open>
  One front and three backs; of the backs, the first delivered was not downloaded, the
  file of the second is gone, the third is in order.
\<close>

definition sample_order :: CardOrder where
  "sample_order =
     \<lparr>details = \<lparr>stock = ''(S30) Standard Smooth'', quantity = 3, bracket = 18, foil = True\<rparr>,
      fronts = \<lparr>cards = [sample_card ''a.png'' [2, 5, 2] False False],
                queue = [sample_card ''a.png'' [2, 5, 2] True True]\<rparr>,
      backs = \<lparr>cards = [sample_card ''b.png'' [0] False False, sample_card ''c.png'' [1] False False,
                        sample_card ''e.png'' [2] False False],
               queue = [sample_card ''b.png'' [0] False False, sample_card ''c.png'' [1] True False,
                        sample_card ''e.png'' [2] True True]\<rparr>\<rparr>"

definition sample_driver :: "States \<Rightarrow> browser AutofillDriver" where
  "sample_driver st =
     \<lparr>session = \<lparr>busy = 0, uploaded = 0, loading = 0, alert_open = False\<rparr>,
      order = sample_order, state = st, action = [], status_bar = (st, ''N/A''),
      upload_bar = 0, trace = []\<rparr>"

section \<open>Basic facts\<close>

lemma adds_refl: "adds d [] d"
  by (simp add: adds_def)

lemma adds_trans: "adds d xs d1 \<Longrightarrow> adds d1 ys d2 \<Longrightarrow> adds d (xs @ ys) d2"
  by (simp add: adds_def)

lemma adds_Cons: "adds d [e] d1 \<Longrightarrow> adds d1 ys d2 \<Longrightarrow> adds d (e # ys) d2"
  by (simp add: adds_def)

lemma and_then_cases:
  assumes "and_then m f = (r, d')"
  obtains (raised) e where "m = (Raised e, d')" "r = Raised e"
        | (returned) x d1 where "m = (Returned x, d1)" "f x d1 = (r, d')"
  using assms by (auto simp: and_then_def split: prod.splits outcome.splits)

lemma and_next_cases:
  assumes "and_next m f = Some (r, d')"
  obtains (raised) e where "m = Some (Raised e, d')" "r = Raised e"
        | (returned) x d1 where "m = Some (Returned x, d1)" "f x d1 = Some (r, d')"
  using assms by (auto simp: and_next_def split: option.splits prod.splits outcome.splits)

lemma call_adds: "call ev f d = (r, d') \<Longrightarrow> adds d [ev] d'"
  by (auto simp: call_def adds_def split: prod.splits sum.splits)



lemma time_sleep_adds: "adds d [Sleep n] (time_sleep w n d)"
  by (simp add: time_sleep_def adds_def)

lemma set_state_adds: "adds d [SetState (state d) a] (set_state (state d) a d)"
  by (simp add: set_state_def adds_def)

lemma except_pass_cases:
  assumes "except_pass excs m = (r, d')"
  obtains r0 where "m = (r0, d')" "r = r0 \<or> r = Returned ()"
  using assms by (auto simp: except_pass_def split: prod.splits outcome.splits if_splits)

lemma accept_alert_adds:
  assumes "accept_alert w d = (r, d')"
  shows "\<exists>h. adds d h d' \<and> list_all is_alert_event h"
proof -
  from assms obtain r0 where
    m: "and_then (call SwitchToAlert (switch_to_alert w) d)
          (\<lambda>_ d. call AlertAccept (alert_accept w) d) = (r0, d')"
    unfolding accept_alert_def by (rule except_pass_cases)
  from m show ?thesis
  proof (cases rule: and_then_cases)
    case (raised e)
    then have "adds d [SwitchToAlert] d'" by (auto dest: call_adds)
    then show ?thesis by (intro exI [of _ "[SwitchToAlert]"]) simp
  next
    case (returned x d1)
    with adds_trans [OF call_adds call_adds] have "adds d ([SwitchToAlert] @ [AlertAccept]) d'"
      by blast
    then show ?thesis by (intro exI [of _ "[SwitchToAlert, AlertAccept]"]) simp
  qed
qed

lemma alert_handler_cases:
  assumes "alert_handler w func d = Some (r, d')"
  obtains (plain) "func d = Some (r, d')" "r \<noteq> Raised (Selenium UnexpectedAlertPresentException)"
        | (alert) d1 where "func d = Some (Raised (Selenium UnexpectedAlertPresentException), d1)"
            "accept_alert w d1 = (r, d')"
  using assms
  by (auto simp: alert_handler_def split: option.splits prod.splits outcome.splits if_splits)

lemma alert_handler_adds:
  assumes "alert_handler w func d = Some (r, d')"
    and "\<And>r1 d1. func d = Some (r1, d1) \<Longrightarrow> adds d new d1"
  shows "\<exists>h. adds d (new @ h) d' \<and> list_all is_alert_event h"
  using assms(1)
proof (cases rule: alert_handler_cases)
  case plain
  then have "adds d (new @ []) d'" using assms(2) by simp
  then show ?thesis by (intro exI [of _ "[]"]) simp
next
  case (alert d1)
  from accept_alert_adds [OF alert(2)] obtain h where "adds d1 h d'" "list_all is_alert_event h"
    by blast
  with assms(2) [OF alert(1)] show ?thesis by (blast intro: adds_trans)
qed

lemma execute_javascript_adds:
  assumes "execute_javascript w js d = Some (r, d')"
  shows "\<exists>h. adds d (ExecuteScript (''javascript:'' @ js) # h) d' \<and> list_all is_alert_event h"
  using alert_handler_adds [OF assms [unfolded execute_javascript_def],
      of "[ExecuteScript (''javascript:'' @ js)]"]
  by (auto dest: call_adds)

lemma switch_to_frame_adds:
  assumes "switch_to_frame w frame d = Some (r, d')"
  shows "\<exists>h. adds d (SwitchToFrame frame # h) d' \<and> list_all is_alert_event h"
  using alert_handler_adds [OF assms [unfolded switch_to_frame_def], of "[SwitchToFrame frame]"]
  by (auto dest: call_adds elim!: except_pass_cases)

lemma wait_loop_adds_aux:
  assumes "wait_loop w wait_elem d = Some y"
  shows "\<exists>t. adds d t (snd y) \<and> list_all is_until_event t \<and>
             fst y \<noteq> Raised (Selenium TimeoutException)"
proof (rule wait_loop.raw_induct [where P = "\<lambda>_ _ d y. \<exists>t. adds d t (snd y) \<and>
    list_all is_until_event t \<and> fst y \<noteq> Raised (Selenium TimeoutException)", OF _ assms],
    goal_cases)
  case (1 loop w wait_elem d y)
  obtain r1 d1 where c: "call (UntilInvisible wait_elem) (until_invisible w wait_elem) d = (r1, d1)"
    by (cases "call (UntilInvisible wait_elem) (until_invisible w wait_elem) d")
  have a: "adds d [UntilInvisible wait_elem] d1" by (rule call_adds [OF c])
  show ?case
  proof (cases "r1 = Raised (Selenium TimeoutException)")
    case True
    with 1(2) [unfolded c] have "loop w wait_elem d1 = Some y" by simp
    from 1(1) [OF this] obtain t where
      "adds d1 t (snd y)" "list_all is_until_event t" "fst y \<noteq> Raised (Selenium TimeoutException)"
      by blast
    with a have "adds d ([UntilInvisible wait_elem] @ t) (snd y) \<and>
        list_all is_until_event ([UntilInvisible wait_elem] @ t) \<and>
        fst y \<noteq> Raised (Selenium TimeoutException)"
      by (auto intro: adds_Cons)
    then show ?thesis by blast
  next
    case False
    with 1(2) [unfolded c] have "y = (r1, d1)"
      by (cases r1) (auto split: if_splits)
    with False a show ?thesis by (intro exI [of _ "[UntilInvisible wait_elem]"]) simp
  qed
qed

lemma wait_loop_adds:
  assumes "wait_loop w wait_elem d = Some (r, d')"
  shows "\<exists>t. adds d t d' \<and> list_all is_until_event t"
  using wait_loop_adds_aux [OF assms] by auto

lemma list_all_mono: "list_all P xs \<Longrightarrow> (\<And>x. P x \<Longrightarrow> Q x) \<Longrightarrow> list_all Q xs"
  by (induction xs) auto

lemma is_until_wait: "is_until_event e \<Longrightarrow> is_wait_event e"
  by (cases e) auto

lemma is_alert_wait: "is_alert_event e \<Longrightarrow> is_wait_event e"
  by (cases e) auto

lemma wait_body_adds:
  assumes "wait_body w d = Some (r, d')"
  shows "\<exists>t. adds d (FindElementById ''sysdiv_wait'' # t) d' \<and> list_all is_until_event t"
proof -
  from assms obtain r0 where
    m: "and_next (Some (call (FindElementById ''sysdiv_wait'') (find_element_by_id w ''sysdiv_wait'') d))
          (\<lambda>wait_elem d. wait_loop w wait_elem d) = Some (r0, d')"
    unfolding wait_body_def by (auto elim: except_pass_cases)
  from m show ?thesis
  proof (cases rule: and_next_cases)
    case (raised e)
    then have "adds d [FindElementById ''sysdiv_wait''] d'" by (auto dest: call_adds)
    then show ?thesis by (intro exI [of _ "[]"]) simp
  next
    case (returned x d1)
    from wait_loop_adds [OF returned(2)] obtain t where "adds d1 t d'" "list_all is_until_event t"
      by blast
    moreover from returned(1) have "adds d [FindElementById ''sysdiv_wait''] d1"
      by (auto dest: call_adds)
    ultimately have "adds d ([FindElementById ''sysdiv_wait''] @ t) d'" by (blast intro: adds_trans)
    with \<open>list_all is_until_event t\<close> show ?thesis by auto
  qed
qed

lemma wait_adds:
  assumes "wait w d = Some (r, d')"
  shows "\<exists>t. adds d (FindElementById ''sysdiv_wait'' # t) d' \<and> list_all is_wait_event t"
  using assms unfolding wait_def
proof (cases rule: alert_handler_cases)
  case plain
  from wait_body_adds [OF plain(1)] show ?thesis
    by (blast intro: list_all_mono is_until_wait)
next
  case (alert d1)
  from wait_body_adds [OF alert(1)] obtain t where
    t: "adds d (FindElementById ''sysdiv_wait'' # t) d1" "list_all is_until_event t" by blast
  from accept_alert_adds [OF alert(2)] obtain h where h: "adds d1 h d'" "list_all is_alert_event h"
    by blast
  from t(1) h(1) have "adds d (FindElementById ''sysdiv_wait'' # (t @ h)) d'"
    using adds_trans by fastforce
  moreover have "list_all is_wait_event (t @ h)"
    using t(2) h(2) by (auto intro: list_all_mono is_until_wait is_alert_wait)
  ultimately show ?thesis by blast
qed

section \<open>Inserting an upload into its slots\<close>

lemma filter_empty_if: "list_all (\<lambda>x. \<not> P x) xs \<Longrightarrow> filter P xs = []"
  by (induction xs) auto













section \<open>The upload step\<close>

lemma busy_loop_adds_aux:
  assumes "busy_loop w pc d = Some y"
  shows "\<exists>new. adds d new (snd y) \<and> list_all is_busy_event new"
proof (rule busy_loop.raw_induct [where P = "\<lambda>w pc d y. \<exists>new. adds d new (snd y) \<and>
    list_all is_busy_event new", OF _ assms], goal_cases)
  case (1 loop w pc d y)
  obtain r1 d1 where c: "call (ValueOfCssProperty pc ''display'')
      (value_of_css_property w pc ''display'') d = (r1, d1)"
    by (cases "call (ValueOfCssProperty pc ''display'') (value_of_css_property w pc ''display'') d")
  have a: "adds d [ValueOfCssProperty pc ''display''] d1" by (rule call_adds [OF c])
  show ?case
  proof (cases r1)
    case (Raised e)
    with 1(2) [unfolded c] have "y = (Raised e, d1)" by simp
    with a show ?thesis by (intro exI [of _ "[ValueOfCssProperty pc ''display'']"]) simp
  next
    case (Returned v)
    show ?thesis
    proof (cases "v = ''none''")
      case True
      with 1(2) [unfolded c] Returned have "y = (Returned (), d1)" by simp
      with a show ?thesis
        by (intro exI [of _ "[ValueOfCssProperty pc ''display'']"]) simp
    next
      case False
      with 1(2) [unfolded c] Returned have "loop w pc (time_sleep w 3 d1) = Some y" by simp
      from 1(1) [OF this] obtain new where
        n: "adds (time_sleep w 3 d1) new (snd y)" "list_all is_busy_event new"
        by blast
      from a time_sleep_adds [of d1 3 w] n(1)
      have "adds d ([ValueOfCssProperty pc ''display''] @ [Sleep 3] @ new) (snd y)"
        by (blast intro: adds_trans)
      with n(2) show ?thesis
        by (intro exI [of _ "[ValueOfCssProperty pc ''display''] @ [Sleep 3] @ new"]) simp
    qed
  qed
qed

lemma busy_loop_adds:
  assumes "busy_loop w pc d = Some (r, d')"
  shows "\<exists>new. adds d new d' \<and> list_all is_busy_event new"
  using busy_loop_adds_aux [OF assms] by auto

text \<open>One round of the submit loop, as far as the next test of the loop.\<close>

lemma submit_round_adds:
  assumes \<open>and_then (call (FindElementByXpath ''//*[@id="uploadId"]'')
                       (find_element_by_xpath w ''//*[@id="uploadId"]'') d1)
             (\<lambda>upload_id d. call (SendKeys upload_id (file_path img))
                               (send_keys w upload_id (file_path img)) d) = (r, d2)\<close>
  shows "\<exists>new. adds d1 new d2 \<and> list_all is_submit_event new \<and>
     (r = Returned () \<longrightarrow> (\<exists>e. SendKeys e (file_path img) \<in> set new))"
  using assms
proof (cases rule: and_then_cases)
  case (raised e)
  from call_adds [OF raised(1)] show ?thesis using raised(2)
    by (intro exI [of _ \<open>[FindElementByXpath ''//*[@id="uploadId"]'']\<close>]) simp
next
  case (returned x d1')
  from adds_trans [OF call_adds [OF returned(1)] call_adds [OF returned(2)]]
  show ?thesis
    by (intro exI [of _ \<open>[FindElementByXpath ''//*[@id="uploadId"]''] @
      [SendKeys x (file_path img)]\<close>]) auto
qed

lemma submit_loop_adds_aux:
  assumes "submit_loop w img pc d = Some y"
  shows "\<exists>new. adds d new (snd y) \<and> list_all is_submit_event new"
proof (rule submit_loop.raw_induct [where P = "\<lambda>w img pc d y. \<exists>new. adds d new (snd y) \<and>
    list_all is_submit_event new", OF _ assms], goal_cases)
  case (1 loop w img pc d y)
  obtain r1 d1 where c: "call (ValueOfCssProperty pc ''display'')
      (value_of_css_property w pc ''display'') d = (r1, d1)"
    by (cases "call (ValueOfCssProperty pc ''display'') (value_of_css_property w pc ''display'') d")
  have a: "adds d [ValueOfCssProperty pc ''display''] d1" by (rule call_adds [OF c])
  show ?case
  proof (cases r1)
    case (Raised e)
    with 1(2) [unfolded c] have "y = (Raised e, d1)" by simp
    with a show ?thesis by (intro exI [of _ "[ValueOfCssProperty pc ''display'']"]) simp
  next
    case (Returned v)
    show ?thesis
    proof (cases "v = ''none''")
      case False
      with 1(2) [unfolded c] Returned have "y = (Returned (), d1)" by simp
      with a show ?thesis by (intro exI [of _ "[ValueOfCssProperty pc ''display'']"]) simp
    next
      case True
      obtain r2 d2 where s: \<open>and_then (call (FindElementByXpath ''//*[@id="uploadId"]'')
                       (find_element_by_xpath w ''//*[@id="uploadId"]'') d1)
             (\<lambda>upload_id d. call (SendKeys upload_id (file_path img))
                               (send_keys w upload_id (file_path img)) d) = (r2, d2)\<close>
        by (cases \<open>and_then (call (FindElementByXpath ''//*[@id="uploadId"]'')
                       (find_element_by_xpath w ''//*[@id="uploadId"]'') d1)
             (\<lambda>upload_id d. call (SendKeys upload_id (file_path img))
                               (send_keys w upload_id (file_path img)) d)\<close>)
      from submit_round_adds [OF s] obtain n2 where
        n2: "adds d1 n2 d2" "list_all is_submit_event n2" by blast
      show ?thesis
      proof (cases r2)
        case (Raised e)
        with 1(2) [unfolded c] Returned True s have "y = (Raised e, d2)" by simp
        moreover from a n2(1) have "adds d ([ValueOfCssProperty pc ''display''] @ n2) d2"
          by (rule adds_trans)
        ultimately show ?thesis using n2(2)
          by (intro exI [of _ "[ValueOfCssProperty pc ''display''] @ n2"]) simp
      next
        case r2: (Returned u)
        obtain r3 d3 where f: "call (FindElementById ''divFileProgressContainer'')
            (find_element_by_id w ''divFileProgressContainer'') (time_sleep w 1 d2) = (r3, d3)"
          by (cases "call (FindElementById ''divFileProgressContainer'')
            (find_element_by_id w ''divFileProgressContainer'') (time_sleep w 1 d2)")
        from a n2(1) time_sleep_adds [of d2 1 w] call_adds [OF f]
        have a3: "adds d ([ValueOfCssProperty pc ''display''] @ n2 @ [Sleep 1] @
            [FindElementById ''divFileProgressContainer'']) d3"
          by (blast intro: adds_trans)
        show ?thesis
        proof (cases r3)
          case (Raised e)
          with 1(2) [unfolded c] Returned True s r2 f have "y = (Raised e, d3)" by simp
          with a3 n2(2) show ?thesis
            by (intro exI [of _ "[ValueOfCssProperty pc ''display''] @ n2 @ [Sleep 1] @
              [FindElementById ''divFileProgressContainer'']"]) simp
        next
          case r3: (Returned pc')
          with 1(2) [unfolded c] Returned True s r2 f have "loop w img pc' d3 = Some y" by simp
          from 1(1) [OF this] obtain n4 where
            n4: "adds d3 n4 (snd y)" "list_all is_submit_event n4" by blast
          from a3 n4(1) have "adds d (([ValueOfCssProperty pc ''display''] @ n2 @ [Sleep 1] @
            [FindElementById ''divFileProgressContainer'']) @ n4) (snd y)" by (rule adds_trans)
          with n2(2) n4(2) show ?thesis
            by (intro exI [of _ "([ValueOfCssProperty pc ''display''] @ n2 @ [Sleep 1] @
              [FindElementById ''divFileProgressContainer'']) @ n4"]) simp
        qed
      qed
    qed
  qed
qed

lemma submit_loop_adds:
  assumes "submit_loop w img pc d = Some (r, d')"
  shows "\<exists>new. adds d new d' \<and> list_all is_submit_event new"
  using submit_loop_adds_aux [OF assms] by auto

lemma is_alert_poll: "is_alert_event e \<Longrightarrow> is_poll_event e"
  by (cases e) auto

lemma poll_once_adds:
  assumes "poll_once w n d = (r, d1)"
  shows "\<exists>new. adds d new d1 \<and> list_all is_poll_event new"
  using assms unfolding poll_once_def
proof (cases rule: and_then_cases)
  case (raised e)
  from call_adds [OF raised(1)] raised(2) show ?thesis
    by (intro exI [of _ "[FindElementsByXpath ''//*[contains(@id, 'upload_')]'']"]) simp
next
  case (returned elem d0)
  note a = call_adds [OF returned(1)]
  show ?thesis
  proof (cases "n < length elem")
    case False
    with returned(2) have "r = Returned (Inl ())" "d1 = time_sleep w 2 d0" by auto
    with adds_trans [OF a time_sleep_adds [of d0 2 w]] show ?thesis
      by (intro exI [of _ "[FindElementsByXpath ''//*[contains(@id, 'upload_')]''] @ [Sleep 2]"])
        simp
  next
    case True
    with returned(2) have g: "and_then
        (call (GetAttribute (last elem) ''pid'') (get_attribute w (last elem) ''pid'') d0)
        (\<lambda>pid d. (Returned (Inr pid), d)) = (r, d1)" by simp
    from g show ?thesis
    proof (cases rule: and_then_cases)
      case (raised e)
      with adds_trans [OF a call_adds [OF raised(1)]] show ?thesis
        by (intro exI [of _ "[FindElementsByXpath ''//*[contains(@id, 'upload_')]''] @
          [GetAttribute (last elem) ''pid'']"]) simp
    next
      case (returned pid d2)
      then have r: "r = Returned (Inr pid)" "d2 = d1" by auto
      from adds_trans [OF a call_adds [OF returned(1)]] r(2)
      have "adds d ([FindElementsByXpath ''//*[contains(@id, 'upload_')]''] @
          [GetAttribute (last elem) ''pid'']) d1" by simp
      then show ?thesis
        by (intro exI [of _ "[FindElementsByXpath ''//*[contains(@id, 'upload_')]''] @
          [GetAttribute (last elem) ''pid'']"]) auto
    qed
  qed
qed

lemma poll_loop_adds_aux:
  assumes "poll_loop w n d = Some y"
  shows "\<exists>new. adds d new (snd y) \<and> list_all is_poll_event new"
proof (rule poll_loop.raw_induct [where P = "\<lambda>w n d y. \<exists>new. adds d new (snd y) \<and>
    list_all is_poll_event new", OF _ assms], goal_cases)
  case (1 loop w n d y)
  obtain r1 d1 where c: "poll_once w n d = (r1, d1)" by (cases "poll_once w n d")
  from poll_once_adds [OF c] obtain n1 where
    n1: "adds d n1 d1" "list_all is_poll_event n1"
    by blast
  have cont: "\<exists>new. adds d new (snd y) \<and> list_all is_poll_event new"
    if "adds d m d2" "list_all is_poll_event m" "loop w n d2 = Some y" for m d2
  proof -
    from 1(1) [OF that(3)] obtain new where
      new: "adds d2 new (snd y)" "list_all is_poll_event new" by blast
    from adds_trans [OF that(1) new(1)] that(2) new(2) show ?thesis
      by (intro exI [of _ "m @ new"]) auto
  qed
  show ?case
  proof (cases r1)
    case (Returned v)
    show ?thesis
    proof (cases v)
      case (Inl u)
      with 1(2) [unfolded c] Returned have "loop w n d1 = Some y" by simp
      from cont [OF n1(1,2) this] show ?thesis .
    next
      case (Inr pid)
      with 1(2) [unfolded c] Returned have y: "y = (Returned pid, d1)" by simp
      with n1(1,2) show ?thesis by (intro exI [of _ n1]) simp
    qed
  next
    case (Raised e)
    show ?thesis
    proof (cases "e = Selenium UnexpectedAlertPresentException")
      case False
      with 1(2) [unfolded c] Raised have "y = (Raised e, d1)" by simp
      with n1(1,2) show ?thesis by (intro exI [of _ n1]) simp
    next
      case True
      obtain r2 d2 where acc: "accept_alert w d1 = (r2, d2)" by (cases "accept_alert w d1")
      from accept_alert_adds [OF acc] obtain h where
        h: "adds d1 h d2" "list_all is_alert_event h" by blast
      from adds_trans [OF n1(1) h(1)] have a2: "adds d (n1 @ h) d2" .
      from n1(2) h(2) have p2: "list_all is_poll_event (n1 @ h)"
        by (auto intro: list_all_mono is_alert_poll)
      show ?thesis
      proof (cases r2)
        case (Returned u)
        with 1(2) [unfolded c] Raised True acc have "loop w n d2 = Some y" by simp
        from cont [OF a2 p2 this] show ?thesis .
      next
        case r2: (Raised e')
        with 1(2) [unfolded c] Raised True acc have "y = (Raised e', d2)" by simp
        with a2 p2 show ?thesis by (intro exI [of _ "n1 @ h"]) simp
      qed
    qed
  qed
qed

lemma poll_loop_adds:
  assumes "poll_loop w n d = Some (r, d')"
  shows "\<exists>new. adds d new d' \<and> list_all is_poll_event new"
  using poll_loop_adds_aux [OF assms] by auto

lemmas sample_defs = sample_webdriver_def sample_driver_def sample_order_def sample_card_def

lemmas run_defs = call_def time_sleep_def and_then_def and_next_def set_state_def
  assert_state_def except_pass_def accept_alert_def alert_handler_def switch_to_frame_def
  wait_body_def wait_def execute_javascript_def next_step_def different_images_def
  same_images_def poll_once_def upload_image_def truthy_def insert_image_def
  upload_and_insert_image_def queue_get_def upload_bar_advance_def upload_and_insert_next_def
  upload_and_insert_images_def

section \<open>The sequencer\<close>

lemma busy_inner: "is_busy_event e \<Longrightarrow> inner_event st e" by (cases e) auto
lemma submit_inner: "is_submit_event e \<Longrightarrow> inner_event st e" by (cases e) auto
lemma poll_inner: "is_poll_event e \<Longrightarrow> inner_event st e" by (cases e) auto
lemma wait_inner: "is_wait_event e \<Longrightarrow> inner_event st e" by (cases e) auto
lemma alert_inner: "is_alert_event e \<Longrightarrow> inner_event st e" by (cases e) auto

lemmas inner_all = list_all_mono [OF _ busy_inner] list_all_mono [OF _ submit_inner]
  list_all_mono [OF _ poll_inner] list_all_mono [OF _ wait_inner] list_all_mono [OF _ alert_inner]

lemma upload_image_inner:
  assumes "upload_image w img d = Some (r, d')"
  shows "\<exists>new. adds d new d' \<and> list_all (inner_event (state d)) new"
proof (cases "file_exists img")
  case False
  with assms have "d' = set_state (state d) [] d" by (simp add: upload_image_def)
  with set_state_adds [of d "[]"] show ?thesis
    by (intro exI [of _ "[SetState (state d) []]"]) simp
next
  case True
  with assms show ?thesis
    apply (simp add: upload_image_def)
    apply (elim and_next_cases)
    apply (auto dest!: call_adds busy_loop_adds submit_loop_adds poll_loop_adds
        simp: adds_def set_state_def intro: inner_all)
    done
qed

lemma execute_javascript_inner:
  assumes "execute_javascript w js d = Some (r, d')"
    and "\<not> is_mode_command (ExecuteScript (''javascript:'' @ js))"
  shows "\<exists>new. adds d new d' \<and> list_all (inner_event (state d)) new"
  using execute_javascript_adds [OF assms(1)] assms(2)
  by (auto intro: inner_all simp: adds_def simp del: is_mode_command.simps)

lemma wait_inner_events:
  assumes "wait w d = Some (r, d')"
  shows "\<exists>new. adds d new d' \<and> list_all (inner_event (state d)) new"
  using wait_adds [OF assms] by (auto intro: inner_all simp: adds_def)

lemma insert_slots_inner:
  assumes "insert_slots w pid sl d = Some (r, d')"
  shows "\<exists>new. adds d new d' \<and> list_all (inner_event (state d)) new"
  using assms
proof (induction sl arbitrary: d)
  case Nil
  then show ?case by (auto intro: adds_refl intro!: exI [of _ "[]"])
next
  case (Cons slot rest)
  from Cons.prems show ?case
    apply simp
    apply (elim and_next_cases)
      apply (auto dest!: execute_javascript_inner wait_inner_events Cons.IH simp: adds_def)
    done
qed

lemma insert_image_inner:
  assumes "insert_image w pid img d = Some (r, d')"
  shows "\<exists>new. adds d new d' \<and> list_all (inner_event (state d)) new"
proof (cases "truthy pid")
  case False
  with assms show ?thesis
    by (auto simp: insert_image_def intro: adds_refl intro!: exI [of _ "[]"])
next
  case True
  with assms show ?thesis
    apply (simp add: insert_image_def)
    apply (elim and_next_cases)
       apply (auto dest!: execute_javascript_inner insert_slots_inner
        simp: adds_def set_state_def)
    done
qed

lemma upload_and_insert_image_inner:
  assumes "upload_and_insert_image w img d = Some (r, d')"
  shows "\<exists>new. adds d new d' \<and> list_all (inner_event (state d)) new"
  using assms unfolding upload_and_insert_image_def
  by (elim and_next_cases) (auto dest!: upload_image_inner insert_image_inner simp: adds_def)

lemma inner_sequencer: "inner_event st e \<Longrightarrow> sequencer_event st e"
  by (cases e) auto

lemma inner_no_pop: "list_all (inner_event st) xs \<Longrightarrow> filter is_pop_or_advance xs = []"
  by (rule filter_empty_if, erule list_all_mono) (case_tac x, auto)

lemma inner_no_pop': "list_all (inner_event st) xs \<Longrightarrow> filter is_pop xs = []"
  by (rule filter_empty_if, erule list_all_mono) (case_tac x, auto)

lemma inner_no_advance: "list_all (inner_event st) xs \<Longrightarrow> filter is_advance xs = []"
  by (rule filter_empty_if, erule list_all_mono) (case_tac x, auto)

lemma images_of_with_queue [simp]:
  "queue (images_of face (with_queue face q ord)) = q"
  "cards (images_of face (with_queue face q ord)) = cards (images_of face ord)"
  "with_queue face q' (with_queue face q ord) = with_queue face q' ord"
  by (cases face; simp)+

lemma upload_and_insert_next_effect:
  assumes "upload_and_insert_next w face d = Some (r, d')"
  shows "\<exists>img rest mid. queue (images_of face (order d)) = img # rest \<and>
     list_all (inner_event (state d)) mid \<and> state d' = state d \<and>
     order d' = with_queue face rest (order d) \<and>
     (if r = Returned () then trace d' = trace d @ QueueGet face # mid @ [UploadBarUpdate] \<and>
         upload_bar d' = upload_bar d + 1
      else trace d' = trace d @ QueueGet face # mid \<and> upload_bar d' = upload_bar d)"
proof -
  from assms obtain img rest where q: "queue (images_of face (order d)) = img # rest"
    by (cases "queue (images_of face (order d))")
      (auto simp: upload_and_insert_next_def queue_get_def and_next_def)
  let ?d1 = "d\<lparr>order := with_queue face rest (order d), trace := trace d @ [QueueGet face]\<rparr>"
  from assms q have m: "and_next
      (if downloaded img then upload_and_insert_image w img ?d1 else Some (Returned (), ?d1))
      (\<lambda>_ d. Some (Returned (), upload_bar_advance d)) = Some (r, d')"
    by (simp add: upload_and_insert_next_def queue_get_def and_next_def)
  have inner: "\<exists>mid. adds ?d1 mid d2 \<and> list_all (inner_event (state d)) mid"
    if "(if downloaded img then upload_and_insert_image w img ?d1 else Some (Returned (), ?d1))
       = Some (r2, d2)" for r2 d2
  proof (cases "downloaded img")
    case True
    with that upload_and_insert_image_inner [of w img ?d1 r2 d2] show ?thesis by simp
  next
    case False
    with that have "d2 = ?d1" by simp
    then show ?thesis by (intro exI [of _ "[]"]) (simp add: adds_def)
  qed
  from m show ?thesis
  proof (cases rule: and_next_cases)
    case (raised e)
    from inner [OF raised(1)] obtain mid where
      "adds ?d1 mid d'" "list_all (inner_event (state d)) mid" by blast
    with q raised(2) show ?thesis
      by (intro exI [of _ img] exI [of _ rest] exI [of _ mid]) (simp add: adds_def)
  next
    case (returned x d2)
    from inner [OF returned(1)] obtain mid where
      "adds ?d1 mid d2" "list_all (inner_event (state d)) mid" by blast
    moreover from returned(2) have "r = Returned ()" "d' = upload_bar_advance d2" by auto
    ultimately show ?thesis using q
      by (intro exI [of _ img] exI [of _ rest] exI [of _ mid])
        (simp add: adds_def upload_bar_advance_def)
  qed
qed

lemma sequencer_loop_Returned:
  assumes "for_range n (upload_and_insert_next w face) d = Some (Returned (), d')"
  shows "\<exists>new. trace d' = trace d @ new \<and>
     filter is_pop_or_advance new = concat (replicate n [QueueGet face, UploadBarUpdate]) \<and>
     length (filter is_pop new) = n \<and> length (filter is_advance new) = n \<and>
     state d' = state d \<and> upload_bar d' = upload_bar d + n \<and>
     n \<le> length (queue (images_of face (order d))) \<and>
     order d' = with_queue face (drop n (queue (images_of face (order d)))) (order d)"
  using assms
proof (induction n arbitrary: d)
  case 0
  then show ?case by (cases face) auto
next
  case (Suc n)
  from Suc.prems obtain d1 where
    one: "upload_and_insert_next w face d = Some (Returned (), d1)"
    and more: "for_range n (upload_and_insert_next w face) d1 = Some (Returned (), d')"
    by (auto elim!: and_next_cases)
  from upload_and_insert_next_effect [OF one] obtain img rest mid where
    e: "queue (images_of face (order d)) = img # rest" "list_all (inner_event (state d)) mid"
      "state d1 = state d" "order d1 = with_queue face rest (order d)"
      "trace d1 = trace d @ QueueGet face # mid @ [UploadBarUpdate]"
      "upload_bar d1 = upload_bar d + 1"
    by auto
  from Suc.IH [OF more] obtain new where
    n: "trace d' = trace d1 @ new"
      "filter is_pop_or_advance new = concat (replicate n [QueueGet face, UploadBarUpdate])"
      "length (filter is_pop new) = n" "length (filter is_advance new) = n"
      "state d' = state d1" "upload_bar d' = upload_bar d1 + n"
      "n \<le> length (queue (images_of face (order d1)))"
      "order d' = with_queue face (drop n (queue (images_of face (order d1)))) (order d1)"
    by blast
  show ?case
    using e n
    by (intro exI [of _ "QueueGet face # mid @ [UploadBarUpdate] @ new"])
      (simp add: inner_no_pop inner_no_pop' inner_no_advance)
qed

lemma sequencer_loop_events:
  assumes "for_range n (upload_and_insert_next w face) d = Some (r, d')"
  shows "\<exists>new. trace d' = trace d @ new \<and> list_all (sequencer_event (state d)) new \<and>
     state d' = state d"
  using assms
proof (induction n arbitrary: d)
  case 0
  then show ?case by auto
next
  case (Suc n)
  from Suc.prems have "and_next (upload_and_insert_next w face d)
      (\<lambda>_ d. for_range n (upload_and_insert_next w face) d) = Some (r, d')" by simp
  then show ?case
  proof (cases rule: and_next_cases)
    case (raised e)
    from upload_and_insert_next_effect [OF raised(1)] obtain mid where
      "list_all (inner_event (state d)) mid" "state d' = state d"
      "trace d' = trace d @ QueueGet face # mid" by auto
    then show ?thesis
      by (intro exI [of _ "QueueGet face # mid"]) (auto intro: list_all_mono inner_sequencer)
  next
    case (returned x d1)
    from upload_and_insert_next_effect [OF returned(1)] obtain mid where
      e: "list_all (inner_event (state d)) mid" "state d1 = state d"
      "trace d1 = trace d @ QueueGet face # mid @ [UploadBarUpdate]" by auto
    from Suc.IH [OF returned(2)] obtain new where
      n: "trace d' = trace d1 @ new" "list_all (sequencer_event (state d1)) new"
        "state d' = state d1" by blast
    from e n show ?thesis
      by (intro exI [of _ "QueueGet face # mid @ [UploadBarUpdate] @ new"])
        (auto intro: list_all_mono inner_sequencer)
  qed
qed

text \<open>
  C3. \<^verbatim>\<open>upload_and_insert_images\<close> on a collection of \<open>n\<close> descriptors. With \<open>n = 0\<close> it
  returns at once and the driver is unchanged: no pop, no upload, no insert. When it
  returns, it has made exactly \<open>n\<close> pops and \<open>n\<close> advances of the upload counter, one
  advance after each pop and before the next pop, whatever was done with the descriptor
  in between; the counter is \<open>n\<close> higher and the first \<open>n\<close> delivered descriptors have left
  the queue.
\<close>

theorem sequencer_pops_and_advances:
  "(cards (images_of face (order d)) = [] \<longrightarrow>
      upload_and_insert_images w face d = Some (Returned (), d)) \<and>
   (upload_and_insert_images w face d = Some (Returned (), d') \<longrightarrow>
      (\<exists>new. trace d' = trace d @ new \<and>
         length (filter is_pop new) = length (cards (images_of face (order d))) \<and>
         length (filter is_advance new) = length (cards (images_of face (order d))) \<and>
         filter is_pop_or_advance new =
           concat (replicate (length (cards (images_of face (order d))))
                     [QueueGet face, UploadBarUpdate]) \<and>
         upload_bar d' = upload_bar d + length (cards (images_of face (order d))) \<and>
         queue (images_of face (order d')) =
           drop (length (cards (images_of face (order d)))) (queue (images_of face (order d)))))"
proof (intro conjI impI)
  assume "cards (images_of face (order d)) = []"
  then show "upload_and_insert_images w face d = Some (Returned (), d)"
    by (simp add: upload_and_insert_images_def)
next
  assume "upload_and_insert_images w face d = Some (Returned (), d')"
  then have "for_range (length (cards (images_of face (order d))))
      (upload_and_insert_next w face) d = Some (Returned (), d')"
    by (simp add: upload_and_insert_images_def)
  from sequencer_loop_Returned [OF this] obtain new where
    "trace d' = trace d @ new"
    "filter is_pop_or_advance new =
       concat (replicate (length (cards (images_of face (order d)))) [QueueGet face, UploadBarUpdate])"
    "length (filter is_pop new) = length (cards (images_of face (order d)))"
    "length (filter is_advance new) = length (cards (images_of face (order d)))"
    "upload_bar d' = upload_bar d + length (cards (images_of face (order d)))"
    "order d' = with_queue face (drop (length (cards (images_of face (order d))))
       (queue (images_of face (order d)))) (order d)"
    by blast
  then show "\<exists>new. trace d' = trace d @ new \<and>
         length (filter is_pop new) = length (cards (images_of face (order d))) \<and>
         length (filter is_advance new) = length (cards (images_of face (order d))) \<and>
         filter is_pop_or_advance new =
           concat (replicate (length (cards (images_of face (order d))))
                     [QueueGet face, UploadBarUpdate]) \<and>
         upload_bar d' = upload_bar d + length (cards (images_of face (order d))) \<and>
         queue (images_of face (order d')) =
           drop (length (cards (images_of face (order d)))) (queue (images_of face (order d)))"
    by (intro exI [of _ new]) simp
qed

lemmas loop_simps = wait_loop.simps busy_loop.simps submit_loop.simps poll_loop.simps

section \<open>Paging\<close>

lemma alert_paging: "is_alert_event e \<Longrightarrow> paging_event e" by (cases e) auto
lemma wait_paging: "is_wait_event e \<Longrightarrow> paging_event e" by (cases e) auto
lemma paging_call: "paging_event e \<Longrightarrow> is_session_call e" by (cases e) auto

lemmas paging_all = list_all_mono [OF _ alert_paging] list_all_mono [OF _ wait_paging]

lemma execute_javascript_paging:
  assumes "execute_javascript w js d = Some (r, d')"
    and "\<not> is_mode_command (ExecuteScript (''javascript:'' @ js))"
  shows "\<exists>new. adds d new d' \<and> list_all paging_event new"
  using execute_javascript_adds [OF assms(1)] assms(2)
  by (auto intro: paging_all simp: adds_def simp del: is_mode_command.simps)

lemma wait_paging_events:
  assumes "wait w d = Some (r, d')"
  shows "\<exists>new. adds d new d' \<and> list_all paging_event new"
  using wait_adds [OF assms] by (auto intro: paging_all simp: adds_def)

lemma switch_to_frame_paging:
  assumes "switch_to_frame w frame d = Some (r, d')"
  shows "\<exists>new. adds d new d' \<and> list_all paging_event new"
  using switch_to_frame_adds [OF assms] by (auto intro: paging_all simp: adds_def)

lemma next_step_paging:
  assumes "next_step w d = Some (r, d')"
  shows "\<exists>new. adds d new d' \<and> list_all paging_event new"
  using assms unfolding next_step_def
  by (elim and_next_cases)
    (auto dest!: wait_paging_events execute_javascript_paging simp: adds_def)

lemma close_button_paging:
  assumes "except_pass [NoSuchElementException]
       (and_then (call (FindElementById ''closeBtn'') (find_element_by_id w ''closeBtn'') d)
          (\<lambda>close_btn d. call (Click close_btn) (click w close_btn) d)) = (r, d')"
  shows "\<exists>new. adds d new d' \<and> list_all paging_event new"
  using assms
  by (elim except_pass_cases and_then_cases) (auto dest!: call_adds simp: adds_def)

lemma mode_adds:
  assumes "execute_javascript w js d = Some (r, d')"
  shows "\<exists>post. adds d (ExecuteScript (''javascript:'' @ js) # post) d' \<and>
     list_all paging_event post"
  using execute_javascript_adds [OF assms] by (auto intro: paging_all)

lemma assert_state_Returned:
  "assert_state st d = (Returned x, d') \<Longrightarrow> state d = st \<and> d' = d"
  by (simp add: assert_state_def split: if_splits)

lemma assert_state_Raised:
  "assert_state st d = (Raised e, d') \<Longrightarrow> d' = d"
  by (simp add: assert_state_def split: if_splits)

lemma and_next_Returned:
  assumes "and_next m f = Some (Returned y, d')"
  obtains x d1 where "m = Some (Returned x, d1)" "f x d1 = Some (Returned y, d')"
  using assms by (auto elim: and_next_cases)

lemma page_to_backs_Returned:
  assumes "page_to_backs w d = Some (Returned (), d')"
  shows "state d = paging_to_backs \<and>
     (\<exists>pre post d1. adds d (pre @
         ExecuteScript (if length (cards (backs (order d))) = 1
                        then ''javascript:setMode('ImageText', 1);''
                        else ''javascript:setMode('ImageText', 0);'') # post) d1 \<and>
       list_all paging_event pre \<and> list_all paging_event post \<and>
       d' = set_state inserting_backs [] d1)"
proof -
  from assms [unfolded page_to_backs_def] obtain d0 d1 d2 d3 d4 d5 d6 d7 where
    s0: "assert_state paging_to_backs d = (Returned (), d0)"
    and s1: "next_step w d0 = Some (Returned (), d1)"
    and s2: "wait w d1 = Some (Returned (), d2)"
    and s3: "except_pass [NoSuchElementException]
       (and_then (call (FindElementById ''closeBtn'') (find_element_by_id w ''closeBtn'') d2)
          (\<lambda>close_btn d. call (Click close_btn) (click w close_btn) d)) = (Returned (), d3)"
    and s4: "next_step w d3 = Some (Returned (), d4)"
    and s5: "switch_to_frame w ''sysifm_loginFrame'' d4 = Some (Returned (), d5)"
    and s6: "(if length (cards (backs (order d5))) = 1 then same_images w d5
               else different_images w d5) = Some (Returned (), d6)"
    and s7: "call SwitchToDefaultContent (switch_to_default_content w) d6 = (Returned (), d7)"
    and r7: "d' = set_state inserting_backs [] d7"
    by (elim and_next_Returned) auto
  from assert_state_Returned [OF s0] have st: "state d = paging_to_backs" and d0: "d0 = d" by auto
  from next_step_paging [OF s1] d0 obtain n1 where n1: "adds d n1 d1" "list_all paging_event n1"
    by blast
  from wait_paging_events [OF s2] obtain n2 where n2: "adds d1 n2 d2" "list_all paging_event n2"
    by blast
  from close_button_paging [OF s3] obtain n3 where n3: "adds d2 n3 d3" "list_all paging_event n3"
    by blast
  from next_step_paging [OF s4] obtain n4 where n4: "adds d3 n4 d4" "list_all paging_event n4"
    by blast
  from switch_to_frame_paging [OF s5] obtain n5 where
    n5: "adds d4 n5 d5" "list_all paging_event n5" by blast
  have o5: "order d5 = order d" using n1(1) n2(1) n3(1) n4(1) n5(1) by (simp add: adds_def)
  let ?m = "if length (cards (backs (order d))) = 1
            then ''javascript:setMode('ImageText', 1);''
            else ''javascript:setMode('ImageText', 0);''"
  from s6 o5 have "\<exists>post. adds d5 (ExecuteScript ?m # post) d6 \<and> list_all paging_event post"
    by (auto simp: same_images_def different_images_def dest!: mode_adds split: if_splits)
  then obtain n6 where n6: "adds d5 (ExecuteScript ?m # n6) d6" "list_all paging_event n6"
    by blast
  note n7 = call_adds [OF s7]
  from n1(1) n2(1) n3(1) n4(1) n5(1) n6(1) n7
  have "adds d ((n1 @ n2 @ n3 @ n4 @ n5) @ ExecuteScript ?m # (n6 @ [SwitchToDefaultContent])) d7"
    by (simp add: adds_def)
  moreover have "list_all paging_event (n1 @ n2 @ n3 @ n4 @ n5)"
    using n1(2) n2(2) n3(2) n4(2) n5(2) by simp
  moreover have "list_all paging_event (n6 @ [SwitchToDefaultContent])" using n6(2) by simp
  ultimately show ?thesis using st r7 by blast
qed

lemma alert_call: "is_alert_event e \<Longrightarrow> is_session_call e" by (cases e) auto

lemmas calls_all = list_all_mono [OF _ paging_call] list_all_mono [OF _ alert_call]

lemma execute_javascript_calls:
  assumes "execute_javascript w js d = Some (r, d')"
  shows "\<exists>new. adds d new d' \<and> list_all is_session_call new"
  using execute_javascript_adds [OF assms] by (auto intro: calls_all simp: adds_def)

lemma wait_calls:
  assumes "wait w d = Some (r, d')"
  shows "\<exists>new. adds d new d' \<and> list_all is_session_call new"
  using wait_paging_events [OF assms] by (auto intro: calls_all)

lemma next_step_calls:
  assumes "next_step w d = Some (r, d')"
  shows "\<exists>new. adds d new d' \<and> list_all is_session_call new"
  using next_step_paging [OF assms] by (auto intro: calls_all)

lemma switch_to_frame_calls:
  assumes "switch_to_frame w frame d = Some (r, d')"
  shows "\<exists>new. adds d new d' \<and> list_all is_session_call new"
  using switch_to_frame_paging [OF assms] by (auto intro: calls_all)

lemma close_button_calls:
  assumes "except_pass [NoSuchElementException]
       (and_then (call (FindElementById ''closeBtn'') (find_element_by_id w ''closeBtn'') d)
          (\<lambda>close_btn d. call (Click close_btn) (click w close_btn) d)) = (r, d')"
  shows "\<exists>new. adds d new d' \<and> list_all is_session_call new"
  using close_button_paging [OF assms] by (auto intro: calls_all)

lemma page_to_backs_Raised:
  assumes "page_to_backs w d = Some (Raised e, d')"
  shows "\<exists>new. adds d new d' \<and> list_all is_session_call new"
  using assms unfolding page_to_backs_def same_images_def different_images_def
  apply (elim and_next_cases)
          apply (auto dest!: assert_state_Raised assert_state_Returned next_step_calls wait_calls
      close_button_calls switch_to_frame_calls execute_javascript_calls call_adds
      simp: adds_def split: if_splits)
  done

lemma page_to_fronts_Raised:
  assumes "page_to_fronts w d = Some (Raised e, d')"
  shows "\<exists>new. adds d new d' \<and> list_all is_session_call new"
  using assms unfolding page_to_fronts_def same_images_def different_images_def
  apply (elim and_next_cases)
          apply (auto dest!: assert_state_Raised assert_state_Returned
      switch_to_frame_calls execute_javascript_calls call_adds
      simp: adds_def split: if_splits)
  done

lemma page_to_fronts_Returned:
  assumes "page_to_fronts w d = Some (Returned (), d')"
  shows "state d = paging_to_fronts \<and>
     (\<exists>pre post d1. adds d (pre @
         ExecuteScript ''javascript:setMode('ImageText', 0);'' # post) d1 \<and>
       list_all paging_event pre \<and> list_all paging_event post \<and>
       d' = set_state inserting_fronts [] d1)"
proof -
  from assms [unfolded page_to_fronts_def] obtain d0 d1 d2 d3 d4 d5 where
    s0: "assert_state paging_to_fronts d = (Returned (), d0)"
    and s1: "execute_javascript w
       ''doPersonalize('https://www.makeplayingcards.com/products/pro_item_process_flow.aspx');'' d0
       = Some (Returned (), d1)"
    and s2: "switch_to_frame w ''sysifm_loginFrame'' d1 = Some (Returned (), d2)"
    and s3: "execute_javascript w
       (''document.getElementById('txt_card_number').value='' @ str (quantity (details (order d2))) @ '';'') d2
       = Some (Returned (), d3)"
    and s4: "different_images w d3 = Some (Returned (), d4)"
    and s5: "call SwitchToDefaultContent (switch_to_default_content w) d4 = (Returned (), d5)"
    and r: "d' = set_state inserting_fronts [] d5"
    by (elim and_next_Returned) auto
  from assert_state_Returned [OF s0] have st: "state d = paging_to_fronts" and d0: "d0 = d" by auto
  from execute_javascript_paging [OF s1] d0 obtain n1 where
    n1: "adds d n1 d1" "list_all paging_event n1" by auto
  from switch_to_frame_paging [OF s2] obtain n2 where
    n2: "adds d1 n2 d2" "list_all paging_event n2" by blast
  from execute_javascript_paging [OF s3] obtain n3 where
    n3: "adds d2 n3 d3" "list_all paging_event n3" by auto
  from mode_adds [OF s4 [unfolded different_images_def]] obtain n4 where
    n4: "adds d3 (ExecuteScript ''javascript:setMode('ImageText', 0);'' # n4) d4"
      "list_all paging_event n4" by auto
  note n5 = call_adds [OF s5]
  from n1(1) n2(1) n3(1) n4(1) n5
  have "adds d ((n1 @ n2 @ n3) @ ExecuteScript ''javascript:setMode('ImageText', 0);'' #
      (n4 @ [SwitchToDefaultContent])) d5"
    by (simp add: adds_def)
  moreover have "list_all paging_event (n1 @ n2 @ n3)" using n1(2) n2(2) n3(2) by simp
  moreover have "list_all paging_event (n4 @ [SwitchToDefaultContent])" using n4(2) by simp
  ultimately show ?thesis using st r by blast
qed

lemma define_order_Raised:
  assumes "define_order w d = (Raised e, d')"
  shows "\<exists>new. adds d new d' \<and> list_all is_session_call new"
  using assms unfolding define_order_def
  apply (elim and_then_cases)
         apply (auto dest!: assert_state_Raised assert_state_Returned call_adds
      simp: adds_def split: if_splits elim!: and_then_cases)
  done

lemma define_order_Returned:
  assumes "define_order w d = (Returned (), d')"
  shows "state d = defining_order \<and> state d' = paging_to_fronts \<and>
     (\<exists>new. trace d' = trace d @ new @ [SetState paging_to_fronts []] \<and>
        list_all is_session_call new)"
  using assms unfolding define_order_def
  apply (elim and_then_cases)
         apply (auto dest!: assert_state_Raised assert_state_Returned call_adds
      simp: adds_def set_state_def split: if_splits elim!: and_then_cases)
  done

section \<open>The workflow state along a run\<close>

lemma assigned_states_append:
  "assigned_states (xs @ ys) = assigned_states xs @ assigned_states ys"
  by (induction xs rule: assigned_states.induct) auto

lemma calls_no_assign: "list_all is_session_call xs \<Longrightarrow> assigned_states xs = []"
  by (induction xs rule: assigned_states.induct) auto

lemma sequencer_assign:
  "list_all (sequencer_event st) xs \<Longrightarrow> \<exists>k. assigned_states xs = replicate k st"
proof (induction xs rule: assigned_states.induct)
  case 1
  then show ?case by simp
next
  case (2 s a es)
  then obtain k where "assigned_states es = replicate k st" by auto
  with 2 have "assigned_states (SetState s a # es) = replicate (Suc k) st" by simp
  then show ?case by blast
qed auto

lemma sorted_chain:
  "sorted (map f (a # xs)) \<Longrightarrow> sorted (map f (last (a # xs) # ys))
   \<Longrightarrow> sorted (map (f :: 'a \<Rightarrow> nat) (a # xs @ ys))"
proof (induction xs arbitrary: a)
  case Nil
  then show ?case by simp
next
  case (Cons x xs)
  from Cons.prems have ax: "f a \<le> f x" and sx: "sorted (map f (x # xs))"
    and sy: "sorted (map f (last (x # xs) # ys))" by simp_all
  from Cons.IH [OF sx sy] have s: "sorted (map f (x # xs @ ys))" .
  then have "\<forall>y \<in> set (map f (xs @ ys)). f x \<le> y" by simp
  with ax have "\<forall>y \<in> set (map f (x # xs @ ys)). f a \<le> y"
    by (auto intro: order_trans)
  with s show ?case by simp
qed

lemma last_chain: "last (last (a # xs) # ys) = last (a # xs @ ys)"
  by (cases ys) simp_all

lemma mf_refl: "moves_forward s [] s"
  by (simp add: moves_forward_def)

lemma mf_trans:
  assumes "moves_forward s xs s1" and "moves_forward s1 ys s2"
  shows "moves_forward s (xs @ ys) s2"
proof -
  from assms have a: "sorted (map rank (s # assigned_states xs))"
    and s1: "s1 = last (s # assigned_states xs)"
    and b: "sorted (map rank (s1 # assigned_states ys))"
    and s2: "s2 = last (s1 # assigned_states ys)"
    unfolding moves_forward_def by blast+
  from sorted_chain [OF a b [unfolded s1]]
  have "sorted (map rank (s # assigned_states xs @ assigned_states ys))" .
  moreover have "s2 = last (s # assigned_states xs @ assigned_states ys)"
    unfolding s2 s1 by (rule last_chain)
  ultimately show ?thesis unfolding moves_forward_def assigned_states_append by blast
qed

lemma mf_calls: "list_all is_session_call xs \<Longrightarrow> moves_forward s xs s"
  by (simp add: moves_forward_def calls_no_assign)

lemma mf_sequencer:
  assumes "list_all (sequencer_event s) xs"
  shows "moves_forward s xs s"
proof -
  from sequencer_assign [OF assms] obtain k where k: "assigned_states xs = replicate k s" by blast
  have "map rank (s # replicate k s) = replicate (Suc k) (rank s)" by simp
  then have "sorted (map rank (s # replicate k s))" by (simp only: sorted_replicate)
  moreover have "last (s # replicate k s) = s"
    using last_replicate [of "Suc k" s] by simp
  ultimately show ?thesis unfolding moves_forward_def k by simp
qed

lemma mf_set: "rank s \<le> rank s' \<Longrightarrow> moves_forward s [SetState s' a] s'"
  by (simp add: moves_forward_def)

section \<open>The image mode of a face\<close>

lemma paging_no_mode: "list_all paging_event xs \<Longrightarrow> filter is_mode_command xs = []"
  by (rule filter_empty_if, erule list_all_mono) (case_tac x, auto)

lemma paging_no_send: "list_all paging_event xs \<Longrightarrow> filter is_send_keys xs = []"
  by (rule filter_empty_if, erule list_all_mono) (case_tac x, auto)

lemma sequencer_no_mode: "list_all (sequencer_event st) xs \<Longrightarrow> filter is_mode_command xs = []"
  by (rule filter_empty_if, erule list_all_mono) (case_tac x, auto)

lemma upload_and_insert_images_events:
  assumes "upload_and_insert_images w face d = Some (r, d')"
  shows "\<exists>new. trace d' = trace d @ new \<and> list_all (sequencer_event (state d)) new \<and>
     state d' = state d"
  using assms unfolding upload_and_insert_images_def by (rule sequencer_loop_events)

lemma insert_face_mode:
  assumes run: "and_next (page d) (\<lambda>_ d.
       and_next (Some (assert_state mid d)) (\<lambda>_ d.
       and_next (upload_and_insert_images w face d) (\<lambda>_ d.
       Some (Returned (), set_state exit [] d)))) = Some (Returned (), d')"
    and page: "\<And>d1. page d = Some (Returned (), d1) \<Longrightarrow>
       \<exists>pre post d0. adds d (pre @ ExecuteScript m # post) d0 \<and>
         list_all paging_event pre \<and> list_all paging_event post \<and> d1 = set_state mid [] d0"
  shows "\<exists>pre post. trace d' = trace d @ pre @ ExecuteScript m # post \<and>
     filter is_mode_command pre = [] \<and> filter is_send_keys pre = [] \<and>
     filter is_mode_command post = []"
proof -
  from run obtain d1 d2 d3 where
    p: "page d = Some (Returned (), d1)"
    and a: "assert_state mid d1 = (Returned (), d2)"
    and u: "upload_and_insert_images w face d2 = Some (Returned (), d3)"
    and f: "d' = set_state exit [] d3"
    by (elim and_next_Returned) auto
  from page [OF p] obtain pre post d0 where
    pg: "adds d (pre @ ExecuteScript m # post) d0" "list_all paging_event pre"
      "list_all paging_event post" "d1 = set_state mid [] d0" by blast
  from assert_state_Returned [OF a] have d2: "d2 = d1" by simp
  from upload_and_insert_images_events [OF u] obtain new where
    n: "trace d3 = trace d2 @ new" "list_all (sequencer_event (state d2)) new" by blast
  have "trace d' = trace d @ pre @ ExecuteScript m #
      (post @ [SetState mid []] @ new @ [SetState exit []])"
    using pg(1,4) d2 n(1) f by (simp add: adds_def set_state_def)
  moreover have "filter is_mode_command (post @ [SetState mid []] @ new @ [SetState exit []]) = []"
    using pg(3) n(2) by (simp add: paging_no_mode sequencer_no_mode)
  ultimately show ?thesis using pg(2) by (blast intro: paging_no_mode paging_no_send)
qed

text \<open>
  C2, as the code has it. \<^verbatim>\<open>insert_fronts\<close> always sets the mode for different images,
  whatever the number of front descriptors; \<^verbatim>\<open>insert_backs\<close> sets the mode for the same
  image when the backs have exactly one descriptor and for different images otherwise.
  For either face, when the operation returns, the mode command is in the trace exactly
  once, and no file was sent before it.
\<close>

theorem mode_command_once_before_uploads:
  "(insert_fronts w d = Some (Returned (), d') \<longrightarrow>
      (\<exists>pre post. trace d' = trace d @ pre @
           ExecuteScript ''javascript:setMode('ImageText', 0);'' # post \<and>
         filter is_mode_command pre = [] \<and> filter is_send_keys pre = [] \<and>
         filter is_mode_command post = [])) \<and>
   (insert_backs w d = Some (Returned (), d') \<longrightarrow>
      (\<exists>pre post. trace d' = trace d @ pre @
           ExecuteScript (if length (cards (backs (order d))) = 1
                          then ''javascript:setMode('ImageText', 1);''
                          else ''javascript:setMode('ImageText', 0);'') # post \<and>
         filter is_mode_command pre = [] \<and> filter is_send_keys pre = [] \<and>
         filter is_mode_command post = []))"
proof (intro conjI impI)
  assume "insert_fronts w d = Some (Returned (), d')"
  then show "\<exists>pre post. trace d' = trace d @ pre @
           ExecuteScript ''javascript:setMode('ImageText', 0);'' # post \<and>
         filter is_mode_command pre = [] \<and> filter is_send_keys pre = [] \<and>
         filter is_mode_command post = []"
    unfolding insert_fronts_def
    by (rule insert_face_mode [where page = "page_to_fronts w" and d = d])
      (use page_to_fronts_Returned in blast)
next
  assume "insert_backs w d = Some (Returned (), d')"
  then show "\<exists>pre post. trace d' = trace d @ pre @
           ExecuteScript (if length (cards (backs (order d))) = 1
                          then ''javascript:setMode('ImageText', 1);''
                          else ''javascript:setMode('ImageText', 0);'') # post \<and>
         filter is_mode_command pre = [] \<and> filter is_send_keys pre = [] \<and>
         filter is_mode_command post = []"
    unfolding insert_backs_def
    by (rule insert_face_mode [where page = "page_to_backs w" and d = d])
      (use page_to_backs_Returned in blast)
qed

section \<open>Forward through the workflow\<close>

lemma calls_forward:
  assumes "adds d new d'" and "list_all is_session_call new"
  shows "trace d' = trace d @ new \<and> moves_forward (state d) new (state d')"
  using assms mf_calls [of new "state d"] by (simp add: adds_def)

lemma insert_face_forward:
  assumes run: "and_next (page d) (\<lambda>_ d.
       and_next (Some (assert_state mid d)) (\<lambda>_ d.
       and_next (upload_and_insert_images w face d) (\<lambda>_ d.
       Some (Returned (), set_state exit [] d)))) = Some (r, d')"
    and page_R: "\<And>d1. page d = Some (Returned (), d1) \<Longrightarrow>
       state d = entry \<and> (\<exists>new d0. adds d new d0 \<and> list_all is_session_call new \<and>
         d1 = set_state mid [] d0)"
    and page_E: "\<And>e d1. page d = Some (Raised e, d1) \<Longrightarrow>
       \<exists>new. adds d new d1 \<and> list_all is_session_call new"
    and ranks: "rank entry \<le> rank mid" "rank mid \<le> rank exit"
  shows "\<exists>new. trace d' = trace d @ new \<and> moves_forward (state d) new (state d') \<and>
     (r = Returned () \<longrightarrow> state d' = exit \<and> (\<exists>front. new = front @ [SetState exit []]))"
  using run
proof (cases rule: and_next_cases)
  case (raised e)
  from page_E [OF raised(1)] obtain new where "adds d new d'" "list_all is_session_call new"
    by blast
  from calls_forward [OF this] raised(2) show ?thesis by blast
next
  case (returned x d1)
  then have p: "page d = Some (Returned (), d1)" by simp
  from page_R [OF p] obtain n0 d0 where
    e: "state d = entry" and n0: "adds d n0 d0" "list_all is_session_call n0"
    and d1: "d1 = set_state mid [] d0" by blast
  from n0(1) e have s0: "state d0 = entry" by (simp add: adds_def)
  have t1: "trace d1 = trace d @ (n0 @ [SetState mid []])" "state d1 = mid"
    using n0(1) d1 by (simp_all add: adds_def set_state_def)
  have m1: "moves_forward (state d) (n0 @ [SetState mid []]) mid"
    using mf_trans [OF mf_calls [OF n0(2)] mf_set [OF ranks(1)]] e by simp
  from returned(2) t1(2) have rest: "and_next (upload_and_insert_images w face d1) (\<lambda>_ d.
       Some (Returned (), set_state exit [] d)) = Some (r, d')"
    by (simp add: assert_state_def and_next_def)
  from rest show ?thesis
  proof (cases rule: and_next_cases)
    case (raised e')
    from upload_and_insert_images_events [OF raised(1)] t1(2) obtain n2 where
      n2: "trace d' = trace d1 @ n2" "list_all (sequencer_event mid) n2" "state d' = mid"
      by auto
    from mf_trans [OF m1 mf_sequencer [OF n2(2)]] n2(1,3) t1(1) raised(2)
    show ?thesis by (intro exI [of _ "(n0 @ [SetState mid []]) @ n2"]) simp
  next
    case (returned y d2)
    from upload_and_insert_images_events [OF returned(1)] t1(2) obtain n2 where
      n2: "trace d2 = trace d1 @ n2" "list_all (sequencer_event mid) n2" "state d2 = mid"
      by auto
    from returned(2) have f: "d' = set_state exit [] d2" "r = Returned ()" by auto
    from mf_trans [OF mf_trans [OF m1 mf_sequencer [OF n2(2)]] mf_set [OF ranks(2)]]
    have "moves_forward (state d) (((n0 @ [SetState mid []]) @ n2) @ [SetState exit []]) exit" .
    moreover have "trace d' = trace d @ ((n0 @ [SetState mid []]) @ n2) @ [SetState exit []]"
      "state d' = exit"
      using f(1) n2(1) t1(1) by (simp_all add: set_state_def)
    ultimately show ?thesis
      by (intro exI [of _ "((n0 @ [SetState mid []]) @ n2) @ [SetState exit []]"]) auto
  qed
qed

lemma page_calls:
  assumes "adds d (pre @ ExecuteScript m # post) d0"
    and "list_all paging_event pre" and "list_all paging_event post"
  shows "\<exists>new. adds d new d0 \<and> list_all is_session_call new"
  using assms by (intro exI [of _ "pre @ ExecuteScript m # post"]) (auto intro: calls_all)

lemma insert_fronts_forward:
  assumes "insert_fronts w d = Some (r, d')"
  shows "\<exists>new. trace d' = trace d @ new \<and> moves_forward (state d) new (state d') \<and>
     (r = Returned () \<longrightarrow>
        state d' = paging_to_backs \<and> (\<exists>front. new = front @ [SetState paging_to_backs []]))"
proof (rule insert_face_forward [where page = "page_to_fronts w" and d = d
      and entry = paging_to_fronts, OF assms [unfolded insert_fronts_def]])
  fix d1 assume "page_to_fronts w d = Some (Returned (), d1)"
  from page_to_fronts_Returned [OF this] page_calls
  show "state d = paging_to_fronts \<and> (\<exists>new d0. adds d new d0 \<and> list_all is_session_call new \<and>
         d1 = set_state inserting_fronts [] d0)" by blast
next
  fix e d1 assume "page_to_fronts w d = Some (Raised e, d1)"
  then show "\<exists>new. adds d new d1 \<and> list_all is_session_call new" by (rule page_to_fronts_Raised)
qed simp_all

lemma insert_backs_forward:
  assumes "insert_backs w d = Some (r, d')"
  shows "\<exists>new. trace d' = trace d @ new \<and> moves_forward (state d) new (state d') \<and>
     (r = Returned () \<longrightarrow>
        state d' = paging_to_review \<and> (\<exists>front. new = front @ [SetState paging_to_review []]))"
proof (rule insert_face_forward [where page = "page_to_backs w" and d = d
      and entry = paging_to_backs, OF assms [unfolded insert_backs_def]])
  fix d1 assume "page_to_backs w d = Some (Returned (), d1)"
  from page_to_backs_Returned [OF this] page_calls
  show "state d = paging_to_backs \<and> (\<exists>new d0. adds d new d0 \<and> list_all is_session_call new \<and>
         d1 = set_state inserting_backs [] d0)" by blast
next
  fix e d1 assume "page_to_backs w d = Some (Raised e, d1)"
  then show "\<exists>new. adds d new d1 \<and> list_all is_session_call new" by (rule page_to_backs_Raised)
qed simp_all

lemma define_order_forward:
  assumes "define_order w d = (r, d')"
  shows "\<exists>new. trace d' = trace d @ new \<and> moves_forward (state d) new (state d') \<and>
     (r = Returned () \<longrightarrow>
        state d' = paging_to_fronts \<and> (\<exists>front. new = front @ [SetState paging_to_fronts []]))"
proof (cases r)
  case (Raised e)
  from define_order_Raised [OF assms [unfolded Raised]] obtain new where
    "adds d new d'" "list_all is_session_call new" by blast
  from calls_forward [OF this] Raised show ?thesis by blast
next
  case (Returned u)
  from define_order_Returned [of w d d'] assms Returned obtain new where
    n: "state d = defining_order" "state d' = paging_to_fronts"
      "trace d' = trace d @ new @ [SetState paging_to_fronts []]" "list_all is_session_call new"
    by auto
  have "moves_forward defining_order (new @ [SetState paging_to_fronts []]) paging_to_fronts"
    by (rule mf_trans [OF mf_calls [OF n(4)] mf_set]) simp
  with n show ?thesis by (intro exI [of _ "new @ [SetState paging_to_fronts []]"]) simp
qed

lemma attrs_post_init_forward:
  assumes "state d = initialising" and "attrs_post_init w d = (r, d')"
  shows "\<exists>new. trace d' = trace d @ new \<and> moves_forward (state d) new (state d') \<and>
     (r = Returned () \<longrightarrow>
        state d' = defining_order \<and> (\<exists>front. new = front @ [SetState defining_order []]))"
  using assms(2) unfolding attrs_post_init_def
proof (cases rule: and_then_cases)
  case (raised e)
  from call_adds [OF raised(1)]
  have "trace d' = trace d @ [Get ''https://www.makeplayingcards.com/design/custom-blank-card.html'']"
    "state d' = state d"
    by (simp_all add: adds_def configure_bars_def)
  with raised(2) show ?thesis
    by (intro exI [of _ "[Get ''https://www.makeplayingcards.com/design/custom-blank-card.html'']"])
      (simp add: moves_forward_def)
next
  case (returned x d1)
  from call_adds [OF returned(1)]
  have "trace d1 = trace d @ [Get ''https://www.makeplayingcards.com/design/custom-blank-card.html'']"
    by (simp add: adds_def configure_bars_def)
  with returned(2) assms(1) show ?thesis
    by (intro exI [of _ "[Get ''https://www.makeplayingcards.com/design/custom-blank-card.html'',
       SetState defining_order []]"]) (auto simp: moves_forward_def set_state_def)
qed

lemma forward_join:
  assumes "trace d1 = trace d @ n1" "moves_forward (state d) n1 (state d1)"
    and "trace d2 = trace d1 @ n2" "moves_forward (state d1) n2 (state d2)"
  shows "trace d2 = trace d @ (n1 @ n2) \<and> moves_forward (state d) (n1 @ n2) (state d2)"
  using assms mf_trans by auto

lemma execute_forward:
  assumes "execute w d = Some (r, d')"
  shows "\<exists>new. trace d' = trace d @ new \<and> moves_forward (state d) new (state d') \<and>
     (r = Returned () \<longrightarrow> state d' = paging_to_review)"
  using assms unfolding execute_def
proof (cases rule: and_next_cases)
  case (raised e)
  then have "define_order w d = (r, d')" by simp
  from define_order_forward [OF this] raised(2) show ?thesis by auto
next
  case (returned x d1)
  then have "define_order w d = (Returned (), d1)" by simp
  from define_order_forward [OF this] obtain n1 where
    n1: "trace d1 = trace d @ n1" "moves_forward (state d) n1 (state d1)" by blast
  from returned(2) show ?thesis
  proof (cases rule: and_next_cases)
    case (raised e)
    from insert_fronts_forward [OF raised(1)] obtain n2 where
      n2: "trace d' = trace d1 @ n2" "moves_forward (state d1) n2 (state d')" by blast
    from forward_join [OF n1 n2] raised(2) show ?thesis by blast
  next
    case (returned y d2)
    from insert_fronts_forward [OF returned(1)] obtain n2 where
      n2: "trace d2 = trace d1 @ n2" "moves_forward (state d1) n2 (state d2)" by blast
    from insert_backs_forward [OF returned(2)] obtain n3 where
      n3: "trace d' = trace d2 @ n3" "moves_forward (state d2) n3 (state d')"
        "r = Returned () \<longrightarrow> state d' = paging_to_review" by blast
    from forward_join [OF n1 n2] have
      "trace d2 = trace d @ (n1 @ n2)" "moves_forward (state d) (n1 @ n2) (state d2)" by auto
    from forward_join [OF this n3(1,2)] n3(3) show ?thesis by blast
  qed
qed

text \<open>
  C9. Along the events that the initialisation, each public operation and \<^verbatim>\<open>execute\<close> add
  to the trace, whatever the outcome, the workflow states assigned never go back in the
  order of the workflow, and the state of the driver is the last one assigned. An
  operation that returns leaves its exit state, and the assignment of that state is the
  last event it adds.
\<close>

theorem workflow_state_moves_forward:
  "(state d = initialising \<longrightarrow> attrs_post_init w d = (r, d') \<longrightarrow>
      (\<exists>new. trace d' = trace d @ new \<and> moves_forward (state d) new (state d') \<and>
         (r = Returned () \<longrightarrow> state d' = defining_order \<and>
            (\<exists>front. new = front @ [SetState defining_order []])))) \<and>
   (define_order w d = (r, d') \<longrightarrow>
      (\<exists>new. trace d' = trace d @ new \<and> moves_forward (state d) new (state d') \<and>
         (r = Returned () \<longrightarrow> state d' = paging_to_fronts \<and>
            (\<exists>front. new = front @ [SetState paging_to_fronts []])))) \<and>
   (insert_fronts w d = Some (r, d') \<longrightarrow>
      (\<exists>new. trace d' = trace d @ new \<and> moves_forward (state d) new (state d') \<and>
         (r = Returned () \<longrightarrow> state d' = paging_to_backs \<and>
            (\<exists>front. new = front @ [SetState paging_to_backs []])))) \<and>
   (insert_backs w d = Some (r, d') \<longrightarrow>
      (\<exists>new. trace d' = trace d @ new \<and> moves_forward (state d) new (state d') \<and>
         (r = Returned () \<longrightarrow> state d' = paging_to_review \<and>
            (\<exists>front. new = front @ [SetState paging_to_review []])))) \<and>
   (execute w d = Some (r, d') \<longrightarrow>
      (\<exists>new. trace d' = trace d @ new \<and> moves_forward (state d) new (state d') \<and>
         (r = Returned () \<longrightarrow> state d' = paging_to_review)))"
  using attrs_post_init_forward [of d w r d'] define_order_forward [of w d r d']
    insert_fronts_forward [of w d r d'] insert_backs_forward [of w d r d']
    execute_forward [of w d r d']
  by (intro conjI impI) assumption+

section \<open>Dialogs and timeouts\<close>

lemma accept_alert_Raised:
  assumes "accept_alert w d = (Raised e, d')"
  shows "e \<noteq> Selenium NoAlertPresentException \<and>
     (\<exists>x s. e = Selenium x \<and>
        (fst (switch_to_alert w s) = Inl x \<or> fst (alert_accept w s) = Inl x))"
  using assms
  apply (auto simp: accept_alert_def except_pass_def and_then_def call_def
      split: prod.splits sum.splits if_splits)
    apply (metis fst_conv)+
  done

lemma poll_once_alert_free:
  assumes "poll_loop w n d = Some y"
    and "\<forall>s. fst (switch_to_alert w s) \<noteq> Inl UnexpectedAlertPresentException \<and>
       fst (alert_accept w s) \<noteq> Inl UnexpectedAlertPresentException"
  shows "fst y \<noteq> Raised (Selenium UnexpectedAlertPresentException)"
proof -
  have "(\<forall>s. fst (switch_to_alert w s) \<noteq> Inl UnexpectedAlertPresentException \<and>
       fst (alert_accept w s) \<noteq> Inl UnexpectedAlertPresentException) \<longrightarrow>
    fst y \<noteq> Raised (Selenium UnexpectedAlertPresentException)"
  proof (rule poll_loop.raw_induct [where P = "\<lambda>w n d y.
    (\<forall>s. fst (switch_to_alert w s) \<noteq> Inl UnexpectedAlertPresentException \<and>
       fst (alert_accept w s) \<noteq> Inl UnexpectedAlertPresentException) \<longrightarrow>
    fst y \<noteq> Raised (Selenium UnexpectedAlertPresentException)", OF _ assms(1)], goal_cases)
    case (1 loop w n d y)
    obtain r1 d1 where c: "poll_once w n d = (r1, d1)" by (cases "poll_once w n d")
    show ?case
    proof (intro impI)
      assume h: "\<forall>s. fst (switch_to_alert w s) \<noteq> Inl UnexpectedAlertPresentException \<and>
        fst (alert_accept w s) \<noteq> Inl UnexpectedAlertPresentException"
      show "fst y \<noteq> Raised (Selenium UnexpectedAlertPresentException)"
      proof (cases r1)
        case (Returned v)
        show ?thesis
        proof (cases v)
          case (Inl u)
          with 1(2) [unfolded c] Returned have "loop w n d1 = Some y" by simp
          from 1(1) [OF this] h show ?thesis by blast
        next
          case (Inr pid)
          with 1(2) [unfolded c] Returned show ?thesis by auto
        qed
      next
        case (Raised e)
        show ?thesis
        proof (cases "e = Selenium UnexpectedAlertPresentException")
          case False
          with 1(2) [unfolded c] Raised show ?thesis by auto
        next
          case True
          obtain r2 d2 where acc: "accept_alert w d1 = (r2, d2)" by (cases "accept_alert w d1")
          show ?thesis
          proof (cases r2)
            case (Returned u)
            with 1(2) [unfolded c] Raised True acc have "loop w n d2 = Some y" by simp
            from 1(1) [OF this] h show ?thesis by blast
          next
            case r2: (Raised e')
            with 1(2) [unfolded c] Raised True acc have y: "y = (Raised e', d2)" by simp
            from accept_alert_Raised [OF acc [unfolded r2]] h
            have "e' \<noteq> Selenium UnexpectedAlertPresentException" by auto
            with y show ?thesis by simp
          qed
        qed
      qed
    qed
  qed
  with assms(2) show ?thesis by blast
qed

text \<open>
  C7. In the polling loop of the upload step, an \<^verbatim>\<open>UnexpectedAlertPresentException\<close> of a
  poll is followed by accepting the alert, and the loop goes on from the state reached; a
  missing alert (\<^verbatim>\<open>NoAlertPresentException\<close>) is passed over; so the loop never ends with
  \<^verbatim>\<open>UnexpectedAlertPresentException\<close>, unless the calls that accept the alert raise it
  themselves. In the loop of \<^verbatim>\<open>wait\<close>, a \<^verbatim>\<open>TimeoutException\<close> of the wait for the loading
  indicator is followed by the same wait again, and the loop never ends with
  \<^verbatim>\<open>TimeoutException\<close>.
\<close>

theorem transient_noise_is_retried:
  "(poll_once w n d = (Raised (Selenium UnexpectedAlertPresentException), d1) \<longrightarrow>
      accept_alert w d1 = (Returned (), d2) \<longrightarrow> poll_loop w n d = poll_loop w n d2) \<and>
   accept_alert w d \<noteq> (Raised (Selenium NoAlertPresentException), d') \<and>
   ((\<forall>s. fst (switch_to_alert w s) \<noteq> Inl UnexpectedAlertPresentException \<and>
         fst (alert_accept w s) \<noteq> Inl UnexpectedAlertPresentException) \<longrightarrow>
      poll_loop w n d \<noteq> Some (Raised (Selenium UnexpectedAlertPresentException), d')) \<and>
   (call (UntilInvisible e) (until_invisible w e) d = (Raised (Selenium TimeoutException), d1) \<longrightarrow>
      wait_loop w e d = wait_loop w e d1) \<and>
   wait_loop w e d \<noteq> Some (Raised (Selenium TimeoutException), d')"
proof (intro conjI impI)
  assume "poll_once w n d = (Raised (Selenium UnexpectedAlertPresentException), d1)"
    and "accept_alert w d1 = (Returned (), d2)"
  then show "poll_loop w n d = poll_loop w n d2"
    by (subst poll_loop.simps) simp
next
  show "accept_alert w d \<noteq> (Raised (Selenium NoAlertPresentException), d')"
    using accept_alert_Raised [of w d "Selenium NoAlertPresentException" d'] by blast
next
  assume "\<forall>s. fst (switch_to_alert w s) \<noteq> Inl UnexpectedAlertPresentException \<and>
         fst (alert_accept w s) \<noteq> Inl UnexpectedAlertPresentException"
  with poll_once_alert_free [of w n d "(Raised (Selenium UnexpectedAlertPresentException), d')"]
  show "poll_loop w n d \<noteq> Some (Raised (Selenium UnexpectedAlertPresentException), d')"
    by auto
next
  assume "call (UntilInvisible e) (until_invisible w e) d =
    (Raised (Selenium TimeoutException), d1)"
  then show "wait_loop w e d = wait_loop w e d1"
    by (subst wait_loop.simps) simp
next
  show "wait_loop w e d \<noteq> Some (Raised (Selenium TimeoutException), d')"
    using wait_loop_adds_aux [of w e d "(Raised (Selenium TimeoutException), d')"] by auto
qed

section \<open>Entry states\<close>

text \<open>
  C1. When the workflow state is not the entry state of an operation, the operation
  raises \<^verbatim>\<open>InvalidStateException\<close> with the expected and the actual state, and the driver
  is as it was: no state assignment, no call on the session, no pop. This holds for
  \<^verbatim>\<open>define_order\<close>, for the paging steps \<^verbatim>\<open>page_to_fronts\<close> and \<^verbatim>\<open>page_to_backs\<close>, and so for
  \<^verbatim>\<open>insert_fronts\<close> and \<^verbatim>\<open>insert_backs\<close>, which begin with them.
\<close>

theorem wrong_entry_state_raises:
  "(state d \<noteq> defining_order \<longrightarrow>
      define_order w d = (Raised (InvalidStateException defining_order (state d)), d)) \<and>
   (state d \<noteq> paging_to_fronts \<longrightarrow>
      page_to_fronts w d = Some (Raised (InvalidStateException paging_to_fronts (state d)), d) \<and>
      insert_fronts w d = Some (Raised (InvalidStateException paging_to_fronts (state d)), d)) \<and>
   (state d \<noteq> paging_to_backs \<longrightarrow>
      page_to_backs w d = Some (Raised (InvalidStateException paging_to_backs (state d)), d) \<and>
      insert_backs w d = Some (Raised (InvalidStateException paging_to_backs (state d)), d))"
  by (simp add: define_order_def page_to_fronts_def page_to_backs_def insert_fronts_def
      insert_backs_def assert_state_def and_then_def and_next_def)

theorem wrong_entry_state_raises_witness:
  "state (sample_driver initialising) \<noteq> defining_order \<and>
   state (sample_driver initialising) \<noteq> paging_to_fronts \<and>
   state (sample_driver initialising) \<noteq> paging_to_backs \<and>
   define_order sample_webdriver (sample_driver initialising) =
     (Raised (InvalidStateException defining_order initialising), sample_driver initialising) \<and>
   insert_fronts sample_webdriver (sample_driver initialising) =
     Some (Raised (InvalidStateException paging_to_fronts initialising), sample_driver initialising) \<and>
   insert_backs sample_webdriver (sample_driver initialising) =
     Some (Raised (InvalidStateException paging_to_backs initialising), sample_driver initialising)"
  using wrong_entry_state_raises [of "sample_driver initialising" sample_webdriver]
  by (simp add: sample_driver_def)

section \<open>Descriptors that are passed over\<close>

text \<open>
  C6. When the upload step gave no identifier (\<^verbatim>\<open>None\<close> or the empty string),
  \<^verbatim>\<open>insert_image\<close> returns at once: the driver, and with it the trace, is unchanged, so
  no command reaches the session.
\<close>

theorem insert_image_without_pid:
  "\<not> truthy pid \<Longrightarrow> insert_image w pid img d = Some (Returned (), d)"
  by (simp add: insert_image_def)

theorem insert_image_without_pid_witness:
  "\<not> truthy None \<and> \<not> truthy (Some []) \<and>
   insert_image sample_webdriver None (sample_card ''c.png'' [1] True False)
     (sample_driver inserting_backs) = Some (Returned (), sample_driver inserting_backs) \<and>
   insert_image sample_webdriver (Some []) (sample_card ''c.png'' [1] True False)
     (sample_driver inserting_backs) = Some (Returned (), sample_driver inserting_backs)"
  using insert_image_without_pid [of None sample_webdriver "sample_card ''c.png'' [1] True False"
      "sample_driver inserting_backs"]
    insert_image_without_pid [of "Some []" sample_webdriver "sample_card ''c.png'' [1] True False"
      "sample_driver inserting_backs"]
  by (simp add: truthy_def)

text \<open>
  C4. A popped descriptor whose \<^verbatim>\<open>downloaded\<close> flag is false: the round of the loop pops
  it and advances the upload counter, and does nothing else. The trace gains the pop and
  the advance only, so there is no upload and no insert, and the session is untouched.
\<close>

theorem not_downloaded_is_skipped:
  assumes "queue (images_of face (order d)) = img # rest" and "\<not> downloaded img"
  shows "upload_and_insert_next w face d =
     Some (Returned (),
       d\<lparr>order := with_queue face rest (order d), upload_bar := upload_bar d + 1,
         trace := trace d @ [QueueGet face, UploadBarUpdate]\<rparr>)"
  using assms
  by (simp add: upload_and_insert_next_def queue_get_def and_next_def upload_bar_advance_def)

theorem not_downloaded_is_skipped_witness:
  "queue (images_of Back (order (sample_driver inserting_backs))) =
     sample_card ''b.png'' [0] False False #
       [sample_card ''c.png'' [1] True False, sample_card ''e.png'' [2] True True] \<and>
   \<not> downloaded (sample_card ''b.png'' [0] False False) \<and>
   map_option (\<lambda>(r, d). (r, trace d, upload_bar d, session d))
     (upload_and_insert_next sample_webdriver Back (sample_driver inserting_backs)) =
     Some (Returned (), [QueueGet Back, UploadBarUpdate], 1,
           \<lparr>busy = 0, uploaded = 0, loading = 0, alert_open = False\<rparr>)"
  using not_downloaded_is_skipped [of Back "sample_driver inserting_backs"
      "sample_card ''b.png'' [0] False False"
      "[sample_card ''c.png'' [1] True False, sample_card ''e.png'' [2] True True]"
      sample_webdriver]
  by (simp add: sample_driver_def sample_order_def sample_card_def)

text \<open>
  C10. A popped descriptor that was downloaded but whose file does not exist when the
  upload step asks: \<^verbatim>\<open>upload_image\<close> makes no call on the session and its result is
  \<^verbatim>\<open>None\<close>; it only writes the workflow state it already has, with an empty action.
  \<^verbatim>\<open>insert_image\<close> then does nothing, and the round of the loop ends with the advance of
  the upload counter. The session is as before.
\<close>

theorem missing_file_is_not_uploaded:
  assumes "queue (images_of face (order d)) = img # rest"
    and "downloaded img" and "\<not> file_exists img"
  shows "upload_image w img d = Some (Returned None, set_state (state d) [] d) \<and>
     insert_image w None img (set_state (state d) [] d) =
       Some (Returned (), set_state (state d) [] d) \<and>
     upload_and_insert_next w face d =
       Some (Returned (),
         d\<lparr>order := with_queue face rest (order d), action := [],
           status_bar := (state d, ''N/A''), upload_bar := upload_bar d + 1,
           trace := trace d @ [QueueGet face, SetState (state d) [], UploadBarUpdate]\<rparr>)"
  using assms
  by (simp add: upload_and_insert_next_def queue_get_def and_next_def upload_bar_advance_def
      upload_and_insert_image_def upload_image_def insert_image_def truthy_def set_state_def)

theorem missing_file_is_not_uploaded_witness:
  "queue (images_of Back (order ((sample_driver inserting_backs)
       \<lparr>order := with_queue Back [sample_card ''c.png'' [1] True False] sample_order\<rparr>))) =
     sample_card ''c.png'' [1] True False # [] \<and>
   downloaded (sample_card ''c.png'' [1] True False) \<and>
   \<not> file_exists (sample_card ''c.png'' [1] True False) \<and>
   map_option (\<lambda>(r, d). (r, trace d, upload_bar d, state d, session d))
     (upload_and_insert_next sample_webdriver Back ((sample_driver inserting_backs)
       \<lparr>order := with_queue Back [sample_card ''c.png'' [1] True False] sample_order\<rparr>)) =
     Some (Returned (), [QueueGet Back, SetState inserting_backs [], UploadBarUpdate], 1,
           inserting_backs, \<lparr>busy = 0, uploaded = 0, loading = 0, alert_open = False\<rparr>)"
  using missing_file_is_not_uploaded [of Back "(sample_driver inserting_backs)
       \<lparr>order := with_queue Back [sample_card ''c.png'' [1] True False] sample_order\<rparr>"
      "sample_card ''c.png'' [1] True False" "[]" sample_webdriver]
  by (simp add: sample_driver_def sample_order_def sample_card_def)

section \<open>Runs of the sample session\<close>

text \<open>
  The theorems above are now applied to runs of the sample session. A run is evaluated
  once for its outcome; the driver it ends in is then taken from the outcome.
\<close>

lemma returned_run:
  "map_option fst x = Some r \<Longrightarrow> \<exists>d'. x = Some (r, d')"
  by (cases x) auto

lemma returned_step: "fst x = r \<Longrightarrow> x = (r, snd x)"
  by (cases x) auto

text \<open>
  The sample order has exactly one front. \<^verbatim>\<open>insert_fronts\<close> returns on it, and the only mode
  command of the run is the one of \<^verbatim>\<open>different_images\<close>: a face of one descriptor does not get
  the same-image mode when the face is the fronts.
\<close>

theorem single_front_gets_different_images:
  "length (cards (fronts (order (sample_driver paging_to_fronts)))) = 1 \<and>
   fst (the (insert_fronts sample_webdriver (sample_driver paging_to_fronts))) = Returned () \<and>
   filter is_mode_command
     (trace (snd (the (insert_fronts sample_webdriver (sample_driver paging_to_fronts))))) =
     [ExecuteScript ''javascript:setMode('ImageText', 0);'']"
  by code_simp

text \<open>
  The mode command on the sample fronts, and on backs of a single descriptor, where it is
  the one of \<^verbatim>\<open>same_images\<close>.
\<close>

theorem mode_command_once_before_uploads_witness:
  "(\<exists>d'. insert_fronts sample_webdriver (sample_driver paging_to_fronts) = Some (Returned (), d') \<and>
      (\<exists>pre post. trace d' = trace (sample_driver paging_to_fronts) @ pre @
           ExecuteScript ''javascript:setMode('ImageText', 0);'' # post \<and>
         filter is_mode_command pre = [] \<and> filter is_send_keys pre = [] \<and>
         filter is_mode_command post = [])) \<and>
   (\<exists>d'. insert_backs sample_webdriver ((sample_driver paging_to_backs)
        \<lparr>order := sample_order\<lparr>backs := \<lparr>cards = [sample_card ''e.png'' [2] False False],
            queue = [sample_card ''e.png'' [2] True True]\<rparr>\<rparr>\<rparr>) = Some (Returned (), d') \<and>
      (\<exists>pre post. trace d' = pre @
           ExecuteScript ''javascript:setMode('ImageText', 1);'' # post \<and>
         filter is_mode_command pre = [] \<and> filter is_send_keys pre = [] \<and>
         filter is_mode_command post = []))"
proof -
  let ?b = "(sample_driver paging_to_backs)
        \<lparr>order := sample_order\<lparr>backs := \<lparr>cards = [sample_card ''e.png'' [2] False False],
            queue = [sample_card ''e.png'' [2] True True]\<rparr>\<rparr>\<rparr>"
  have "map_option fst (insert_fronts sample_webdriver (sample_driver paging_to_fronts)) =
      Some (Returned ())" by code_simp
  from returned_run [OF this] obtain d1 where
    r1: "insert_fronts sample_webdriver (sample_driver paging_to_fronts) = Some (Returned (), d1)" ..
  have "map_option fst (insert_backs sample_webdriver ?b) = Some (Returned ())" by code_simp
  from returned_run [OF this] obtain d2 where
    r2: "insert_backs sample_webdriver ?b = Some (Returned (), d2)" ..
  have one: "length (cards (backs (order ?b))) = 1" by (simp add: sample_driver_def)
  have t: "trace ?b = []" by (simp add: sample_driver_def)
  from mode_command_once_before_uploads [of sample_webdriver "sample_driver paging_to_fronts" d1]
    r1
  have "\<exists>pre post. trace d1 = trace (sample_driver paging_to_fronts) @ pre @
           ExecuteScript ''javascript:setMode('ImageText', 0);'' # post \<and>
         filter is_mode_command pre = [] \<and> filter is_send_keys pre = [] \<and>
         filter is_mode_command post = []" by blast
  moreover from mode_command_once_before_uploads [of sample_webdriver ?b d2] r2
  have "\<exists>pre post. trace d2 = trace ?b @ pre @
           ExecuteScript (if length (cards (backs (order ?b))) = 1
                          then ''javascript:setMode('ImageText', 1);''
                          else ''javascript:setMode('ImageText', 0);'') # post \<and>
         filter is_mode_command pre = [] \<and> filter is_send_keys pre = [] \<and>
         filter is_mode_command post = []" by blast
  then have "\<exists>pre post. trace d2 = pre @
           ExecuteScript ''javascript:setMode('ImageText', 1);'' # post \<and>
         filter is_mode_command pre = [] \<and> filter is_send_keys pre = [] \<and>
         filter is_mode_command post = []" unfolding t using one by simp
  ultimately show ?thesis using r1 r2 by blast
qed

text \<open>
  The sequencer on a face without descriptors, and on the three sample backs: three pops,
  each followed by an advance of the upload counter, though only the third descriptor is
  uploaded.
\<close>

theorem sequencer_pops_and_advances_witness:
  "cards (images_of Front (order ((sample_driver inserting_fronts)
      \<lparr>order := sample_order\<lparr>fronts := \<lparr>cards = [], queue = []\<rparr>\<rparr>\<rparr>))) = [] \<and>
   upload_and_insert_images sample_webdriver Front ((sample_driver inserting_fronts)
      \<lparr>order := sample_order\<lparr>fronts := \<lparr>cards = [], queue = []\<rparr>\<rparr>\<rparr>) =
     Some (Returned (), (sample_driver inserting_fronts)
      \<lparr>order := sample_order\<lparr>fronts := \<lparr>cards = [], queue = []\<rparr>\<rparr>\<rparr>) \<and>
   (\<exists>d'. upload_and_insert_images sample_webdriver Back (sample_driver inserting_backs) =
       Some (Returned (), d') \<and>
      length (filter is_pop (trace d')) = 3 \<and> length (filter is_advance (trace d')) = 3 \<and>
      filter is_pop_or_advance (trace d') =
        [QueueGet Back, UploadBarUpdate, QueueGet Back, UploadBarUpdate,
         QueueGet Back, UploadBarUpdate] \<and>
      upload_bar d' = 3 \<and> queue (images_of Back (order d')) = [])"
proof -
  let ?e = "(sample_driver inserting_fronts)
      \<lparr>order := sample_order\<lparr>fronts := \<lparr>cards = [], queue = []\<rparr>\<rparr>\<rparr>"
  have e: "cards (images_of Front (order ?e)) = []" by simp
  have "map_option fst (upload_and_insert_images sample_webdriver Back
      (sample_driver inserting_backs)) = Some (Returned ())" by code_simp
  from returned_run [OF this] obtain d' where
    r: "upload_and_insert_images sample_webdriver Back (sample_driver inserting_backs) =
      Some (Returned (), d')" ..
  have c: "length (cards (images_of Back (order (sample_driver inserting_backs)))) = 3"
    "queue (images_of Back (order (sample_driver inserting_backs))) =
       [sample_card ''b.png'' [0] False False, sample_card ''c.png'' [1] True False,
        sample_card ''e.png'' [2] True True]"
    "trace (sample_driver inserting_backs) = []" "upload_bar (sample_driver inserting_backs) = 0"
    by (simp_all add: sample_driver_def sample_order_def)
  from sequencer_pops_and_advances [of Front ?e sample_webdriver ?e] e
  have "upload_and_insert_images sample_webdriver Front ?e = Some (Returned (), ?e)" by blast
  moreover from sequencer_pops_and_advances [of Back "sample_driver inserting_backs"
      sample_webdriver d'] r
  have "length (filter is_pop (trace d')) = 3 \<and> length (filter is_advance (trace d')) = 3 \<and>
      filter is_pop_or_advance (trace d') =
        [QueueGet Back, UploadBarUpdate, QueueGet Back, UploadBarUpdate,
         QueueGet Back, UploadBarUpdate] \<and>
      upload_bar d' = 3 \<and> queue (images_of Back (order d')) = []"
    unfolding c by (auto simp: eval_nat_numeral)
  ultimately show ?thesis using e r by blast
qed



text \<open>
  C8. \<^verbatim>\<open>upload_image\<close> for a descriptor whose file exists, called while an earlier upload
  is still in progress: two uploads are listed (\<^verbatim>\<open>Elem 2\<close>, \<^verbatim>\<open>Elem 3\<close>) and the progress
  container is displayed. The count of two is taken first; the earlier upload is listed
  (\<^verbatim>\<open>Elem 4\<close>) during the wait for the container to go; the file is sent once; the first
  poll that is not met by the dialog finds three uploads and the result is the \<^verbatim>\<open>pid\<close> of
  \<^verbatim>\<open>Elem 4\<close>, the entry of the earlier upload. The upload of the file itself is still in
  progress then; its entry (\<^verbatim>\<open>Elem 5\<close>) is listed two sleeps later.
\<close>

theorem upload_image_returns_earlier_pid:
  \<open>fst (find_elements_by_xpath sample_webdriver ''//*[contains(@id, 'upload_')]''
       \<lparr>busy = 3, uploaded = 2, loading = 0, alert_open = False\<rparr>) = Inr [Elem 2, Elem 3] \<and>
   fst (the (upload_image sample_webdriver (sample_card ''a.png'' [2, 5, 2] True True)
       ((sample_driver inserting_fronts)
          \<lparr>session := \<lparr>busy = 3, uploaded = 2, loading = 0, alert_open = False\<rparr>\<rparr>))) =
     Returned (Some ''pid4'') \<and>
   trace (snd (the (upload_image sample_webdriver (sample_card ''a.png'' [2, 5, 2] True True)
       ((sample_driver inserting_fronts)
          \<lparr>session := \<lparr>busy = 3, uploaded = 2, loading = 0, alert_open = False\<rparr>\<rparr>)))) =
     [SetState inserting_fronts ''Uploading "a.png"'',
      FindElementsByXpath ''//*[contains(@id, 'upload_')]'',
      FindElementById ''divFileProgressContainer'',
      ValueOfCssProperty (Elem 0) ''display'', Sleep 3,
      ValueOfCssProperty (Elem 0) ''display'', Sleep 3,
      ValueOfCssProperty (Elem 0) ''display'', Sleep 3,
      ValueOfCssProperty (Elem 0) ''display'',
      ValueOfCssProperty (Elem 0) ''display'',
      FindElementByXpath ''//*[@id="uploadId"]'',
      SendKeys (Elem 1) ''cards/a.png'', Sleep 1,
      FindElementById ''divFileProgressContainer'',
      ValueOfCssProperty (Elem 0) ''display'',
      FindElementsByXpath ''//*[contains(@id, 'upload_')]'',
      SwitchToAlert, AlertAccept,
      FindElementsByXpath ''//*[contains(@id, 'upload_')]'',
      GetAttribute (Elem 4) ''pid''] \<and>
   session (snd (the (upload_image sample_webdriver (sample_card ''a.png'' [2, 5, 2] True True)
       ((sample_driver inserting_fronts)
          \<lparr>session := \<lparr>busy = 3, uploaded = 2, loading = 0, alert_open = False\<rparr>\<rparr>)))) =
     \<lparr>busy = 2, uploaded = 3, loading = 0, alert_open = False\<rparr> \<and>
   fst (find_elements_by_xpath sample_webdriver ''//*[contains(@id, 'upload_')]''
       (sleep sample_webdriver 2 (sleep sample_webdriver 2
          \<lparr>busy = 2, uploaded = 3, loading = 0, alert_open = False\<rparr>))) =
     Inr [Elem 2, Elem 3, Elem 4, Elem 5]\<close>
  by code_simp

text \<open>
  The polling loop started with a dialog open, and the loop of \<^verbatim>\<open>wait\<close> started with the
  loading indicator shown: both go on after the exception and return.
\<close>

theorem transient_noise_is_retried_witness:
  "(\<exists>d1 d2.
      poll_once sample_webdriver 0 ((sample_driver inserting_fronts)
          \<lparr>session := \<lparr>busy = 1, uploaded = 1, loading = 0, alert_open = True\<rparr>\<rparr>) =
        (Raised (Selenium UnexpectedAlertPresentException), d1) \<and>
      accept_alert sample_webdriver d1 = (Returned (), d2) \<and>
      poll_loop sample_webdriver 0 ((sample_driver inserting_fronts)
          \<lparr>session := \<lparr>busy = 1, uploaded = 1, loading = 0, alert_open = True\<rparr>\<rparr>) =
        poll_loop sample_webdriver 0 d2) \<and>
   map_option fst (poll_loop sample_webdriver 0 ((sample_driver inserting_fronts)
       \<lparr>session := \<lparr>busy = 1, uploaded = 1, loading = 0, alert_open = True\<rparr>\<rparr>)) =
     Some (Returned (Some ''pid2'')) \<and>
   (\<forall>s. fst (switch_to_alert sample_webdriver s) \<noteq> Inl UnexpectedAlertPresentException \<and>
      fst (alert_accept sample_webdriver s) \<noteq> Inl UnexpectedAlertPresentException) \<and>
   poll_loop sample_webdriver 0 ((sample_driver inserting_fronts)
       \<lparr>session := \<lparr>busy = 1, uploaded = 1, loading = 0, alert_open = True\<rparr>\<rparr>) \<noteq>
     Some (Raised (Selenium UnexpectedAlertPresentException), sample_driver inserting_fronts) \<and>
   accept_alert sample_webdriver (sample_driver inserting_fronts) \<noteq>
     (Raised (Selenium NoAlertPresentException), sample_driver inserting_fronts) \<and>
   (\<exists>d1.
      call (UntilInvisible (Elem 0)) (until_invisible sample_webdriver (Elem 0))
          ((sample_driver inserting_fronts)
             \<lparr>session := \<lparr>busy = 0, uploaded = 0, loading = 1, alert_open = False\<rparr>\<rparr>) =
        (Raised (Selenium TimeoutException), d1) \<and>
      wait_loop sample_webdriver (Elem 0) ((sample_driver inserting_fronts)
          \<lparr>session := \<lparr>busy = 0, uploaded = 0, loading = 1, alert_open = False\<rparr>\<rparr>) =
        wait_loop sample_webdriver (Elem 0) d1) \<and>
   map_option fst (wait_loop sample_webdriver (Elem 0) ((sample_driver inserting_fronts)
       \<lparr>session := \<lparr>busy = 0, uploaded = 0, loading = 1, alert_open = False\<rparr>\<rparr>)) =
     Some (Returned ()) \<and>
   wait_loop sample_webdriver (Elem 0) ((sample_driver inserting_fronts)
       \<lparr>session := \<lparr>busy = 0, uploaded = 0, loading = 1, alert_open = False\<rparr>\<rparr>) \<noteq>
     Some (Raised (Selenium TimeoutException), sample_driver inserting_fronts)"
proof -
  let ?w = sample_webdriver
  let ?a = "(sample_driver inserting_fronts)
       \<lparr>session := \<lparr>busy = 1, uploaded = 1, loading = 0, alert_open = True\<rparr>\<rparr>"
  let ?l = "(sample_driver inserting_fronts)
       \<lparr>session := \<lparr>busy = 0, uploaded = 0, loading = 1, alert_open = False\<rparr>\<rparr>"
  let ?d1 = "snd (poll_once ?w 0 ?a)"
  let ?d2 = "snd (accept_alert ?w ?d1)"
  let ?l1 = "snd (call (UntilInvisible (Elem 0)) (until_invisible ?w (Elem 0)) ?l)"
  let ?d0 = "sample_driver inserting_fronts"
  have "fst (poll_once ?w 0 ?a) = Raised (Selenium UnexpectedAlertPresentException)"
    by code_simp
  then have p: "poll_once ?w 0 ?a = (Raised (Selenium UnexpectedAlertPresentException), ?d1)"
    by (rule returned_step)
  have "fst (accept_alert ?w ?d1) = Returned ()" by code_simp
  then have a: "accept_alert ?w ?d1 = (Returned (), ?d2)" by (rule returned_step)
  have "fst (call (UntilInvisible (Elem 0)) (until_invisible ?w (Elem 0)) ?l) =
      Raised (Selenium TimeoutException)" by code_simp
  then have t: "call (UntilInvisible (Elem 0)) (until_invisible ?w (Elem 0)) ?l =
      (Raised (Selenium TimeoutException), ?l1)" by (rule returned_step)
  have q: "\<forall>s. fst (switch_to_alert ?w s) \<noteq> Inl UnexpectedAlertPresentException \<and>
      fst (alert_accept ?w s) \<noteq> Inl UnexpectedAlertPresentException"
    by (simp add: sample_webdriver_def)
  have v1: "map_option fst (poll_loop ?w 0 ?a) = Some (Returned (Some ''pid2''))"
    by code_simp
  have v2: "map_option fst (wait_loop ?w (Elem 0) ?l) = Some (Returned ())"
    by code_simp
  from transient_noise_is_retried [of ?w 0 ?a ?d1 ?d2 ?d0 "Elem 0"] p a q
  have 1: "poll_loop ?w 0 ?a = poll_loop ?w 0 ?d2"
    and 2: "poll_loop ?w 0 ?a \<noteq> Some (Raised (Selenium UnexpectedAlertPresentException), ?d0)"
    by blast+
  from transient_noise_is_retried [of ?w 0 ?d0 ?d1 ?d2 ?d0 "Elem 0"]
  have 3: "accept_alert ?w ?d0 \<noteq> (Raised (Selenium NoAlertPresentException), ?d0)"
    by blast
  from transient_noise_is_retried [of ?w 0 ?l ?l1 ?d2 ?d0 "Elem 0"] t
  have 4: "wait_loop ?w (Elem 0) ?l = wait_loop ?w (Elem 0) ?l1"
    and 5: "wait_loop ?w (Elem 0) ?l \<noteq> Some (Raised (Selenium TimeoutException), ?d0)"
    by blast+
  from p a 1 have A: "\<exists>d1 d2. poll_once ?w 0 ?a =
        (Raised (Selenium UnexpectedAlertPresentException), d1) \<and>
      accept_alert ?w d1 = (Returned (), d2) \<and> poll_loop ?w 0 ?a = poll_loop ?w 0 d2"
    by blast
  from t 4 have B: "\<exists>d1. call (UntilInvisible (Elem 0)) (until_invisible ?w (Elem 0)) ?l =
        (Raised (Selenium TimeoutException), d1) \<and>
      wait_loop ?w (Elem 0) ?l = wait_loop ?w (Elem 0) d1"
    by blast
  from A v1 q 2 3 B v2 5 show ?thesis by (intro conjI)
qed

text \<open>The five operations on the sample session, each from its entry state.\<close>

theorem workflow_state_moves_forward_witness:
  "state (sample_driver initialising) = initialising \<and>
   (\<exists>d' new. attrs_post_init sample_webdriver (sample_driver initialising) = (Returned (), d') \<and>
      trace d' = new \<and> moves_forward initialising new defining_order \<and>
      state d' = defining_order \<and> (\<exists>front. new = front @ [SetState defining_order []])) \<and>
   (\<exists>d' new. define_order sample_webdriver (sample_driver defining_order) = (Returned (), d') \<and>
      trace d' = new \<and> moves_forward defining_order new paging_to_fronts \<and>
      state d' = paging_to_fronts \<and> (\<exists>front. new = front @ [SetState paging_to_fronts []])) \<and>
   (\<exists>d' new. insert_fronts sample_webdriver (sample_driver paging_to_fronts) =
        Some (Returned (), d') \<and>
      trace d' = new \<and> moves_forward paging_to_fronts new paging_to_backs \<and>
      state d' = paging_to_backs \<and> (\<exists>front. new = front @ [SetState paging_to_backs []])) \<and>
   (\<exists>d' new. insert_backs sample_webdriver (sample_driver paging_to_backs) =
        Some (Returned (), d') \<and>
      trace d' = new \<and> moves_forward paging_to_backs new paging_to_review \<and>
      state d' = paging_to_review \<and> (\<exists>front. new = front @ [SetState paging_to_review []])) \<and>
   (\<exists>d' new. execute sample_webdriver (sample_driver defining_order) = Some (Returned (), d') \<and>
      trace d' = new \<and> moves_forward defining_order new paging_to_review \<and>
      state d' = paging_to_review)"
proof -
  let ?w = sample_webdriver
  have s: "\<And>st. state (sample_driver st) = st" "\<And>st. trace (sample_driver st) = []"
    by (simp_all add: sample_driver_def)
  have "fst (attrs_post_init ?w (sample_driver initialising)) = Returned ()" by code_simp
  from returned_step [OF this] obtain d1 where
    r1: "attrs_post_init ?w (sample_driver initialising) = (Returned (), d1)" ..
  have "fst (define_order ?w (sample_driver defining_order)) = Returned ()" by code_simp
  from returned_step [OF this] obtain d2 where
    r2: "define_order ?w (sample_driver defining_order) = (Returned (), d2)" ..
  have "map_option fst (insert_fronts ?w (sample_driver paging_to_fronts)) =
      Some (Returned ())" by code_simp
  from returned_run [OF this] obtain d3 where
    r3: "insert_fronts ?w (sample_driver paging_to_fronts) = Some (Returned (), d3)" ..
  have "map_option fst (insert_backs ?w (sample_driver paging_to_backs)) =
      Some (Returned ())" by code_simp
  from returned_run [OF this] obtain d4 where
    r4: "insert_backs ?w (sample_driver paging_to_backs) = Some (Returned (), d4)" ..
  have "map_option fst (execute ?w (sample_driver defining_order)) = Some (Returned ())"
    by code_simp
  from returned_run [OF this] obtain d5 where
    r5: "execute ?w (sample_driver defining_order) = Some (Returned (), d5)" ..
  from workflow_state_moves_forward [of "sample_driver initialising" ?w "Returned ()" d1] r1
  have 1: "\<exists>new. trace d1 = new \<and> moves_forward initialising new defining_order \<and>
      state d1 = defining_order \<and> (\<exists>front. new = front @ [SetState defining_order []])"
    by (auto simp: s)
  from workflow_state_moves_forward [of "sample_driver defining_order" ?w "Returned ()" d2] r2
  have 2: "\<exists>new. trace d2 = new \<and> moves_forward defining_order new paging_to_fronts \<and>
      state d2 = paging_to_fronts \<and> (\<exists>front. new = front @ [SetState paging_to_fronts []])"
    by (auto simp: s)
  from workflow_state_moves_forward [of "sample_driver paging_to_fronts" ?w "Returned ()" d3] r3
  have 3: "\<exists>new. trace d3 = new \<and> moves_forward paging_to_fronts new paging_to_backs \<and>
      state d3 = paging_to_backs \<and> (\<exists>front. new = front @ [SetState paging_to_backs []])"
    by (auto simp: s)
  from workflow_state_moves_forward [of "sample_driver paging_to_backs" ?w "Returned ()" d4] r4
  have 4: "\<exists>new. trace d4 = new \<and> moves_forward paging_to_backs new paging_to_review \<and>
      state d4 = paging_to_review \<and> (\<exists>front. new = front @ [SetState paging_to_review []])"
    by (auto simp: s)
  from workflow_state_moves_forward [of "sample_driver defining_order" ?w "Returned ()" d5] r5
  have 5: "\<exists>new. trace d5 = new \<and> moves_forward defining_order new paging_to_review \<and>
      state d5 = paging_to_review"
    by (auto simp: s)
  from r1 1 r2 2 r3 3 r4 4 r5 5 show ?thesis by (simp add: s)
qed

end
